theory Spec2Isabelle
  imports Complex_Main
begin

unbundle bit_operations_syntax

section \<open>Python values, exceptions and sequence operations\<close>

text \<open>
  The exceptions the modelled code can raise. A function that can raise returns
  \<open>error + 'a\<close>, with \<open>Inl\<close> for the raised exception.
\<close>

datatype error =
    IndexError
  | KeyError
  | TypeError
  | ValueError
  | AssertionError
  | UnicodeDecodeError
  | NameError
  | AttributeError

definition bindE :: "error + 'a \<Rightarrow> ('a \<Rightarrow> error + 'b) \<Rightarrow> error + 'b" where
  "bindE r f = (case r of Inl e \<Rightarrow> Inl e | Inr x \<Rightarrow> f x)"

text \<open>\<open>xs[i]\<close>: negative indices count from the end; out of range raises IndexError.\<close>

definition py_item :: "'a list \<Rightarrow> int \<Rightarrow> error + 'a" where
  "py_item xs i =
     (if 0 \<le> i \<and> i < int (length xs) then Inr (xs ! nat i)
      else if - int (length xs) \<le> i \<and> i < 0 then Inr (xs ! nat (int (length xs) + i))
      else Inl IndexError)"

text \<open>A slice bound, normalised as Python does for a sequence of length \<open>n\<close>.\<close>

definition py_bound :: "nat \<Rightarrow> int \<Rightarrow> nat" where
  "py_bound n i = (if i < 0 then nat (max 0 (int n + i)) else min n (nat i))"

text \<open>\<open>xs[a:b]\<close>, \<open>xs[a:]\<close> and \<open>xs[:b]\<close>; slices never raise.\<close>

definition py_slice :: "'a list \<Rightarrow> int \<Rightarrow> int \<Rightarrow> 'a list" where
  "py_slice xs a b =
     (let lo = py_bound (length xs) a; hi = py_bound (length xs) b
      in take (hi - lo) (drop lo xs))"

definition py_slice_from :: "'a list \<Rightarrow> int \<Rightarrow> 'a list" where
  "py_slice_from xs a = drop (py_bound (length xs) a) xs"

definition py_slice_to :: "'a list \<Rightarrow> int \<Rightarrow> 'a list" where
  "py_slice_to xs b = take (py_bound (length xs) b) xs"

definition py_len :: "'a list \<Rightarrow> int" where
  "py_len xs = int (length xs)"

text \<open>
  The Python values that command records and arguments hold: \<open>None\<close>, integers,
  floats, strings (code points), \<open>bytes\<close> objects, lists of integers, lists of
  3-tuples, sets of integers, and dictionaries keyed by strings. A float is kept as the
  exact quotient it is computed from; Python rounds that quotient to a double.
\<close>

datatype pyval =
    PNone
  | PInt int
  | PFloat rat
  | PStr "nat list"
  | PBytes "int list"
  | PList "int list"
  | PTuples "(int \<times> int \<times> int) list"
  | PSet "int set"
  | PDict "string \<Rightarrow> pyval option"

text \<open>\<open>d[k]\<close> on a dictionary raises KeyError for a missing key.\<close>

definition dict_get :: "(string \<rightharpoonup> pyval) \<Rightarrow> string \<Rightarrow> error + pyval" where
  "dict_get d k = (case d k of None \<Rightarrow> Inl KeyError | Some v \<Rightarrow> Inr v)"

text \<open>
  Dynamic type tests. An operation on a value of the wrong type raises TypeError:
  arithmetic needs an integer, subscripting with a string needs a dictionary, and
  \<open>len\<close>, \<open>+\<close> with a list and \<open>data += v\<close> need a sequence (a list or a \<open>bytes\<close>
  object here; other iterables are not modelled).
\<close>

definition as_int :: "pyval \<Rightarrow> error + int" where
  "as_int v = (case v of PInt i \<Rightarrow> Inr i | _ \<Rightarrow> Inl TypeError)"

definition as_list :: "pyval \<Rightarrow> error + int list" where
  "as_list v = (case v of PList xs \<Rightarrow> Inr xs | _ \<Rightarrow> Inl TypeError)"

definition as_seq :: "pyval \<Rightarrow> error + int list" where
  "as_seq v = (case v of PList xs \<Rightarrow> Inr xs | PBytes xs \<Rightarrow> Inr xs | _ \<Rightarrow> Inl TypeError)"

definition as_dict :: "pyval \<Rightarrow> error + (string \<rightharpoonup> pyval)" where
  "as_dict v = (case v of PDict d \<Rightarrow> Inr d | _ \<Rightarrow> Inl TypeError)"

definition is_byte :: "int \<Rightarrow> bool" where
  "is_byte b = (0 \<le> b \<and> b < 256)"

text \<open>\<open>bytes(xs)\<close> of a list of integers raises ValueError unless each is in \<open>range(256)\<close>.\<close>

definition py_bytes :: "int list \<Rightarrow> error + int list" where
  "py_bytes xs = (if list_all is_byte xs then Inr xs else Inl ValueError)"

section \<open>command.py: decoding helpers\<close>

text \<open>
  \<open>_GetSignedValue(data)\<close>. Python integers are unbounded, so \<open>~d\<close> is \<open>-d - 1\<close>
  (\<open>NOT\<close> on \<open>int\<close>), not the 8-bit complement. \<open>data[0]\<close> raises on empty data.
\<close>

fun GetSignedValue_loop :: "bool \<Rightarrow> int \<Rightarrow> int list \<Rightarrow> int" where
  "GetSignedValue_loop negative v [] = v"
| "GetSignedValue_loop negative v (d # ds) =
     GetSignedValue_loop negative
       (if negative then push_bit 8 v + NOT d else push_bit 8 v + d) ds"

definition GetSignedValue :: "int list \<Rightarrow> error + int" where
  "GetSignedValue data =
     bindE (py_item data 0) (\<lambda>d0.
       let negative = (d0 AND 0x80 \<noteq> 0);
           v = GetSignedValue_loop negative 0 data
       in if negative then Inr (- (v + 1)) else Inr v)"

text \<open>
  A decoder returns the pair \<open>(new_index, value)\<close>, where the value \<open>None\<close> marks a
  failure; \<open>_ParseSensor\<close> and \<open>_ParseDate\<close> also have a return statement that
  yields a bare integer.
\<close>

datatype presult = Tup int pyval | Bare int

text \<open>\<open>_GetTimeDelta\<close> and \<open>_ParseMeter\<close>.\<close>

definition GetTimeDelta :: "int list \<Rightarrow> int \<Rightarrow> error + int \<times> int" where
  "GetTimeDelta m index =
     bindE (py_item m index) (\<lambda>hi.
     bindE (py_item m (index + 1)) (\<lambda>lo.
     Inr (index + 2, hi * 256 + lo)))"

definition ParseMeter :: "int list \<Rightarrow> int \<Rightarrow> error + presult" where
  "ParseMeter m index0 =
     (if index0 + 2 > py_len m then Inr (Tup index0 PNone)
      else
        bindE (py_item m index0) (\<lambda>c1.
        bindE (py_item m (index0 + 1)) (\<lambda>c2.
          let unit_extra = drop_bit 7 (c1 AND 0x80);
              type = c1 AND 0x1f;
              rate = drop_bit 5 (c1 AND 0x60);
              size = c2 AND 0x7;
              unit = drop_bit 3 (c2 AND 0x18) OR push_bit 2 unit_extra;
              exp = drop_bit 5 (c2 AND 0xe0);
              index1 = index0 + 2;
              out = [''type'' \<mapsto> PInt type, ''unit'' \<mapsto> PInt unit,
                     ''exp'' \<mapsto> PInt exp, ''rate'' \<mapsto> PInt rate]
          in if index1 + size \<ge> py_len m then Inr (Tup index1 PNone)
             else
               let mantissa = py_slice m index1 (index1 + size);
                   index2 = index1 + size
               in bindE (GetSignedValue mantissa) (\<lambda>sv.
                  let out1 = out(''mantissa'' \<mapsto> PList mantissa,
                                 ''_value'' \<mapsto> PFloat (Fract sv (10 ^ nat exp)))
                  in bindE (if index2 + 2 \<le> py_len m
                            then bindE (GetTimeDelta m index2) (\<lambda>(i, dt).
                                   Inr (i, out1(''dt'' \<mapsto> PInt dt)))
                            else Inr (index2, out1)) (\<lambda>(index3, out2).
                     if index3 + size \<le> py_len m
                     then
                       let mantissa2 = py_slice m index3 (index3 + size)
                       in bindE (GetSignedValue mantissa2) (\<lambda>sv2.
                          Inr (Tup (index3 + size)
                                 (PDict (out2(''mantissa2'' \<mapsto> PList mantissa2,
                                              ''_value2'' \<mapsto> PFloat (Fract sv2 (10 ^ nat exp)))))))
                     else Inr (Tup index3 (PDict out2)))))))"

text \<open>\<open>_ParseByte\<close> and \<open>_ParseWord\<close>.\<close>

definition ParseByte :: "int list \<Rightarrow> int \<Rightarrow> error + presult" where
  "ParseByte m index =
     (if py_len m \<le> index then Inr (Tup index PNone)
      else bindE (py_item m index) (\<lambda>b. Inr (Tup (index + 1) (PInt b))))"

definition ParseWord :: "int list \<Rightarrow> int \<Rightarrow> error + presult" where
  "ParseWord m index =
     (if py_len m \<le> index + 1 then Inr (Tup index PNone)
      else bindE (py_item m index) (\<lambda>hi.
           bindE (py_item m (index + 1)) (\<lambda>lo.
           Inr (Tup (index + 2) (PInt (hi * 256 + lo))))))"

text \<open>
  \<open>_ParseName\<close>, with the three codecs of \<open>_ENCODING_TO_DECODER\<close>. \<open>bytes.decode\<close>
  is Python's: ASCII rejects a byte above 127, Latin-1 maps each byte to its code point,
  UTF-16-BE reads 16-bit units and rejects a truncated unit and an unpaired surrogate.
\<close>

datatype codec = Ascii | Latin1 | Utf16be

definition ENCODING_TO_DECODER :: "codec list" where
  "ENCODING_TO_DECODER = [Ascii, Latin1, Utf16be]"

fun decode_utf16be :: "int list \<Rightarrow> error + nat list" where
  "decode_utf16be [] = Inr []"
| "decode_utf16be [a] = Inl UnicodeDecodeError"
| "decode_utf16be (a # b # rest) =
     (let u = a * 256 + b
      in if 0xD800 \<le> u \<and> u < 0xDC00 then
           (case rest of
              c # d # rest' \<Rightarrow>
                (let v = c * 256 + d
                 in if 0xDC00 \<le> v \<and> v < 0xE000 then
                      (case decode_utf16be rest' of
                         Inl e \<Rightarrow> Inl e
                       | Inr cs \<Rightarrow> Inr (nat (0x10000 + (u - 0xD800) * 0x400 + (v - 0xDC00)) # cs))
                    else Inl UnicodeDecodeError)
            | _ \<Rightarrow> Inl UnicodeDecodeError)
         else if 0xDC00 \<le> u \<and> u < 0xE000 then Inl UnicodeDecodeError
         else (case decode_utf16be rest of
                 Inl e \<Rightarrow> Inl e
               | Inr cs \<Rightarrow> Inr (nat u # cs)))"

definition py_decode :: "codec \<Rightarrow> int list \<Rightarrow> error + nat list" where
  "py_decode c bs =
     (case c of
        Ascii \<Rightarrow> (if list_all (\<lambda>b. b < 128) bs then Inr (map nat bs) else Inl UnicodeDecodeError)
      | Latin1 \<Rightarrow> Inr (map nat bs)
      | Utf16be \<Rightarrow> decode_utf16be bs)"

definition ParseName :: "int list \<Rightarrow> int \<Rightarrow> error + presult" where
  "ParseName m0 index =
     (if \<not> (py_len m0 > index) then Inl AssertionError
      else bindE (py_item m0 index) (\<lambda>c.
           let encoding = c AND 3;
               m = py_slice_from m0 (index + 1)
           in bindE (py_bytes m) (\<lambda>b.
              bindE (py_item ENCODING_TO_DECODER encoding) (\<lambda>dec.
              bindE (py_decode dec b) (\<lambda>decoded.
              Inr (Tup (py_len m)
                     (PDict [''encoding'' \<mapsto> PInt encoding, ''text'' \<mapsto> PList m,
                             ''_decoded'' \<mapsto> PStr decoded])))))))"

text \<open>\<open>_ParseStringWithLength\<close>: the slice is \<open>m[index + 1: size]\<close>, as in the source.\<close>

definition ParseStringWithLength :: "int list \<Rightarrow> int \<Rightarrow> error + presult" where
  "ParseStringWithLength m index =
     bindE (py_item m index) (\<lambda>size.
     bindE (py_bytes (py_slice m (index + 1) size)) (\<lambda>b.
     Inr (Tup (1 + size + index) (PBytes b))))"

text \<open>\<open>_ParseStringWithLengthAndEncoding\<close>: the new index is \<open>1 + size\<close>, as in the source.\<close>

definition ParseStringWithLengthAndEncoding :: "int list \<Rightarrow> int \<Rightarrow> error + presult" where
  "ParseStringWithLengthAndEncoding m index =
     bindE (py_item m index) (\<lambda>c.
       let encoding = drop_bit 5 c;
           size = c AND 0x1f
       in Inr (Tup (1 + size)
                 (PDict [''encoding'' \<mapsto> PInt encoding,
                         ''text'' \<mapsto> PList (py_slice m (index + 1) (index + 1 + size))])))"

definition ParseListRest :: "int list \<Rightarrow> int \<Rightarrow> error + presult" where
  "ParseListRest m index =
     (let size = py_len m - index
      in Inr (Tup (index + size) (PList (py_slice m index (index + size)))))"

text \<open>
  \<open>_ExtractBitVector\<close>: for each position \<open>i\<close> and each bit \<open>j\<close> of the byte there,
  \<open>j + i * 8 + offset\<close> is added to the set when the bit is set.
\<close>

definition ExtractBitVector :: "int list \<Rightarrow> int \<Rightarrow> int set" where
  "ExtractBitVector data offset =
     set (concat (map (\<lambda>i. map (\<lambda>j. int j + int i * 8 + offset)
                               (filter (\<lambda>j. (data ! i) AND push_bit j 1 \<noteq> 0) [0..<8]))
                      [0..<length data]))"

text \<open>\<open>_ParseGroups\<close>; \<open>ParseGroups_loop\<close> is \<open>for i in range(count)\<close>.\<close>

fun ParseGroups_loop ::
  "int list \<Rightarrow> nat \<Rightarrow> int \<Rightarrow> (int \<times> int \<times> int) list \<Rightarrow> error + presult" where
  "ParseGroups_loop m 0 index groups = Inr (Tup index (PTuples groups))"
| "ParseGroups_loop m (Suc n) index groups =
     (case py_item m (index + 0) of Inl e \<Rightarrow> Inl e | Inr num \<Rightarrow>
     (case py_item m (index + 2) of Inl e \<Rightarrow> Inl e | Inr p2 \<Rightarrow>
     (case py_item m (index + 3) of Inl e \<Rightarrow> Inl e | Inr p3 \<Rightarrow>
     (case py_item m (index + 5) of Inl e \<Rightarrow> Inl e | Inr e5 \<Rightarrow>
     (case py_item m (index + 6) of Inl e \<Rightarrow> Inl e | Inr e6 \<Rightarrow>
        ParseGroups_loop m n (index + 7) (groups @ [(num, p2 * 256 + p3, e5 * 256 + e6)]))))))"

definition ParseGroups :: "int list \<Rightarrow> int \<Rightarrow> error + presult" where
  "ParseGroups m index =
     bindE (py_item m index) (\<lambda>misc.
       let count = misc AND 0x3f
       in if py_len m < index + 1 + count * 7 then Inr (Tup index PNone)
          else ParseGroups_loop m (nat count) (index + 1) [])"

definition ParseBitVector :: "int list \<Rightarrow> int \<Rightarrow> error + presult" where
  "ParseBitVector m index =
     bindE (py_item m index) (\<lambda>size.
     Inr (Tup (index + 1 + size)
            (PSet (ExtractBitVector (py_slice m (index + 1) (index + 1 + size)) 0))))"

definition ParseBitVectorRest :: "int list \<Rightarrow> int \<Rightarrow> error + presult" where
  "ParseBitVectorRest m index =
     Inr (Tup (py_len m) (PSet (ExtractBitVector (py_slice_from m index) 0)))"

definition ParseNonce :: "int list \<Rightarrow> int \<Rightarrow> error + presult" where
  "ParseNonce m index =
     (let size = 8
      in if py_len m < index + size then Inr (Tup index PNone)
         else Inr (Tup (index + size) (PList (py_slice m index (index + size)))))"

definition ParseDataRest :: "int list \<Rightarrow> int \<Rightarrow> error + presult" where
  "ParseDataRest m index =
     (let size = py_len m - index
      in Inr (Tup (index + size) (PList (py_slice m index (index + size)))))"

fun GetIntLittleEndian_loop :: "int \<Rightarrow> nat \<Rightarrow> int list \<Rightarrow> int" where
  "GetIntLittleEndian_loop x shift [] = x"
| "GetIntLittleEndian_loop x shift (i # m) =
     GetIntLittleEndian_loop (x + push_bit shift i) (shift + 8) m"

definition GetIntLittleEndian :: "int list \<Rightarrow> int" where
  "GetIntLittleEndian m = GetIntLittleEndian_loop 0 0 m"

fun GetIntBigEndian_loop :: "int \<Rightarrow> int list \<Rightarrow> int" where
  "GetIntBigEndian_loop x [] = x"
| "GetIntBigEndian_loop x (i # m) = GetIntBigEndian_loop (push_bit 8 x + i) m"

definition GetIntBigEndian :: "int list \<Rightarrow> int" where
  "GetIntBigEndian m = GetIntBigEndian_loop 0 m"

definition ParseRestLittleEndianInt :: "int list \<Rightarrow> int \<Rightarrow> error + presult" where
  "ParseRestLittleEndianInt m index =
     (let size = py_len m - index
      in Inr (Tup (index + size)
                (PDict [''size'' \<mapsto> PInt size,
                        ''value'' \<mapsto> PInt (GetIntLittleEndian (py_slice m index (index + size)))])))"

text \<open>\<open>_ParseSensor\<close>: the second length test returns the bare \<open>index\<close>.\<close>

definition ParseSensor :: "int list \<Rightarrow> int \<Rightarrow> error + presult" where
  "ParseSensor m index =
     (if py_len m < index + 2 then Inr (Tup index PNone)
      else bindE (py_item m index) (\<lambda>c.
           let precision = drop_bit 5 c AND 7;
               scale = drop_bit 3 c AND 3;
               size = c AND 7
           in if py_len m < index + 1 + size then Inr (Bare index)
              else
                let mantissa = py_slice m (index + 1) (index + 1 + size)
                in bindE (GetSignedValue mantissa) (\<lambda>sv.
                   Inr (Tup (index + 1 + size)
                          (PDict [''exp'' \<mapsto> PInt precision, ''scale'' \<mapsto> PInt scale,
                                  ''mantissa'' \<mapsto> PList mantissa,
                                  ''_value'' \<mapsto> PFloat (Fract sv (10 ^ nat precision))])))))"

definition ParseValue :: "int list \<Rightarrow> int \<Rightarrow> error + presult" where
  "ParseValue m index =
     bindE (py_item m index) (\<lambda>c.
       let size = c AND 0x7;
           start = index + 1
       in Inr (Tup (index + 1 + size)
                 (PDict [''size'' \<mapsto> PInt size,
                         ''value'' \<mapsto> PInt (GetIntBigEndian (py_slice m start (start + size)))])))"

text \<open>\<open>_ParseDate\<close>: the length test returns the bare \<open>len(m)\<close>.\<close>

definition ParseDate :: "int list \<Rightarrow> int \<Rightarrow> error + presult" where
  "ParseDate m index =
     (if py_len m < index + 7 then Inr (Bare (py_len m))
      else bindE (py_item m index) (\<lambda>y1.
           bindE (py_item m (index + 1)) (\<lambda>y0.
           bindE (py_item m (index + 2)) (\<lambda>month.
           bindE (py_item m (index + 3)) (\<lambda>day.
           bindE (py_item m (index + 4)) (\<lambda>hours.
           bindE (py_item m (index + 5)) (\<lambda>mins.
           bindE (py_item m (index + 6)) (\<lambda>secs.
           Inr (Tup (index + 7) (PList [y1 * 256 + y0, month, day, hours, mins, secs]))))))))))"

text \<open>The dispatch table \<open>_PARSE_ACTIONS\<close>, keyed by the descriptor's first character.\<close>

definition PARSE_ACTIONS :: "char \<rightharpoonup> (int list \<Rightarrow> int \<Rightarrow> error + presult)" where
  "PARSE_ACTIONS =
     [CHR ''A'' \<mapsto> ParseStringWithLength,
      CHR ''F'' \<mapsto> ParseStringWithLengthAndEncoding,
      CHR ''B'' \<mapsto> ParseByte,
      CHR ''C'' \<mapsto> ParseDate,
      CHR ''G'' \<mapsto> ParseGroups,
      CHR ''N'' \<mapsto> ParseName,
      CHR ''L'' \<mapsto> ParseListRest,
      CHR ''R'' \<mapsto> ParseRestLittleEndianInt,
      CHR ''W'' \<mapsto> ParseWord,
      CHR ''V'' \<mapsto> ParseValue,
      CHR ''M'' \<mapsto> ParseMeter,
      CHR ''O'' \<mapsto> ParseNonce,
      CHR ''D'' \<mapsto> ParseDataRest,
      CHR ''T'' \<mapsto> ParseBitVector,
      CHR ''U'' \<mapsto> ParseBitVectorRest,
      CHR ''X'' \<mapsto> ParseSensor]"

text \<open>
  The command table \<open>z.SUBCMD_TO_PARSE_TABLE\<close> is defined in \<open>zwave.py\<close>, which is
  not among the sources. It is a parameter \<open>tbl\<close>: a dictionary from
  \<open>classId * 256 + cmdId\<close> to the list of descriptor strings such as \<open>B{level}\<close>.
  The source reads it by subscript, \<open>z.SUBCMD_TO_PARSE_TABLE[key]\<close>, which raises
  KeyError for a key the dictionary does not hold.
\<close>

type_synonym cmd_table = "int \<rightharpoonup> string list"

definition GetParameterDescriptors :: "cmd_table \<Rightarrow> int list \<Rightarrow> error + string list option" where
  "GetParameterDescriptors tbl m =
     (if py_len m < 2 then Inr None
      else bindE (py_item m 0) (\<lambda>m0.
           bindE (py_item m 1) (\<lambda>m1.
             let key = m0 * 256 + m1
             in (case tbl key of None \<Rightarrow> Inl KeyError | Some t \<Rightarrow> Inr (Some t)))))"

text \<open>
  \<open>ParseCommand\<close> returns \<open>[]\<close> when no table was found, \<open>None\<close> when a field fails
  to decode, and the dictionary \<open>out\<close> otherwise. A descriptor \<open>t\<close> has the kind
  \<open>t[0]\<close> and the field name \<open>t[2:-1]\<close>. A decoder that returns a bare integer makes
  the unpacking \<open>new_index, value = ...\<close> raise TypeError.
\<close>

definition field_name :: "string \<Rightarrow> string" where
  "field_name t = py_slice t 2 (- 1)"

fun ParseCommand_loop ::
  "string list \<Rightarrow> int list \<Rightarrow> int \<Rightarrow> (string \<rightharpoonup> pyval) \<Rightarrow> error + pyval" where
  "ParseCommand_loop [] m index out = Inr (PDict out)"
| "ParseCommand_loop (t # table) m index out =
     (case py_item t 0 of
        Inl e \<Rightarrow> Inl e
      | Inr kind \<Rightarrow>
          (case PARSE_ACTIONS kind of
             None \<Rightarrow> Inl KeyError
           | Some action \<Rightarrow>
               (case action m index of
                  Inl e \<Rightarrow> Inl e
                | Inr (Bare n) \<Rightarrow> Inl TypeError
                | Inr (Tup new_index v) \<Rightarrow>
                    (case v of
                       PNone \<Rightarrow> Inr PNone
                     | _ \<Rightarrow> ParseCommand_loop table m new_index (out(field_name t \<mapsto> v))))))"

definition ParseCommand :: "cmd_table \<Rightarrow> int list \<Rightarrow> error + pyval" where
  "ParseCommand tbl m =
     bindE (GetParameterDescriptors tbl m) (\<lambda>table.
       case table of
         None \<Rightarrow> Inr (PList [])
       | Some t \<Rightarrow> ParseCommand_loop t m 2 Map.empty)"

section \<open>command.py: assembling\<close>

text \<open>\<open>_MakeDate\<close>, \<open>_MakeSensor\<close> and \<open>_MakeMeter\<close>.\<close>

definition MakeDate :: "int list \<Rightarrow> error + int list" where
  "MakeDate date =
     bindE (py_item date 0) (\<lambda>d0.
     bindE (py_item date 1) (\<lambda>d1.
     bindE (py_item date 2) (\<lambda>d2.
     bindE (py_item date 3) (\<lambda>d3.
     bindE (py_item date 4) (\<lambda>d4.
     bindE (py_item date 5) (\<lambda>d5.
     Inr [d0 div 256, d0 mod 256, d1, d2, d3, d4, d5]))))))"

definition MakeSensor :: "(string \<rightharpoonup> pyval) \<Rightarrow> error + int list" where
  "MakeSensor args =
     bindE (dict_get args ''mantissa'') (\<lambda>mv.
     bindE (bindE (dict_get args ''exp'') as_int) (\<lambda>exp.
     bindE (bindE (dict_get args ''scale'') as_int) (\<lambda>scale.
     bindE (as_list mv) (\<lambda>m.
       let c = push_bit 5 exp OR push_bit 3 scale OR py_len m
       in Inr ([c] @ m)))))"

definition MakeMeter :: "(string \<rightharpoonup> pyval) \<Rightarrow> error + int list" where
  "MakeMeter args =
     bindE (bindE (dict_get args ''unit'') as_int) (\<lambda>unit1.
     bindE (bindE (dict_get args ''rate'') as_int) (\<lambda>rate.
     bindE (bindE (dict_get args ''type'') as_int) (\<lambda>type.
     bindE (bindE (dict_get args ''exp'') as_int) (\<lambda>exp.
     bindE (bindE (dict_get args ''unit'') as_int) (\<lambda>unit2.
     bindE (bindE (dict_get args ''mantissa'') as_seq) (\<lambda>mlen.
       let c1 = push_bit 7 (unit1 AND 4) OR push_bit 5 rate OR (type AND 0x1f);
           c2 = push_bit 5 exp OR push_bit 3 (unit2 AND 3) OR py_len mlen
       in bindE (case args ''dt'' of
                   None \<Rightarrow> Inr []
                 | Some dtv \<Rightarrow> bindE (as_int dtv) (\<lambda>dt. Inr [drop_bit 8 dt, dt AND 0xff])) (\<lambda>delta.
          bindE (bindE (dict_get args ''mantissa'') as_list) (\<lambda>mantissa.
          bindE (case args ''mantissa2'' of
                   None \<Rightarrow> Inr []
                 | Some m2 \<Rightarrow> as_list m2) (\<lambda>mantissa2.
          Inr ([c1, c2] @ mantissa @ delta @ mantissa2))))))))))"

text \<open>
  The two loops of \<open>AssembleCommand\<close> that emit an integer byte by byte:
  \<open>for i in reversed(range(size)): data += [(value >> 8 * i) & 0xff]\<close> for kind V and
  \<open>for i in range(size): data += [value & 0xff]; value >>= 8\<close> for kind R.
\<close>

fun big_endian_bytes :: "nat \<Rightarrow> int \<Rightarrow> int list" where
  "big_endian_bytes 0 v = []"
| "big_endian_bytes (Suc i) v = (drop_bit (8 * i) v AND 0xff) # big_endian_bytes i v"

fun little_endian_bytes :: "nat \<Rightarrow> int \<Rightarrow> int list" where
  "little_endian_bytes 0 v = []"
| "little_endian_bytes (Suc n) v = (v AND 0xff) # little_endian_bytes n (drop_bit 8 v)"

text \<open>
  One pass of the loop of \<open>AssembleCommand\<close>: the bytes that the branch for \<open>kind\<close>
  appends to \<open>data\<close> for the argument \<open>v\<close>, in the order of the source's
  \<open>if\<close>/\<open>elif\<close> chain. Kinds S and every kind without a branch end in
  \<open>assert False\<close>. \<open>data\<close> is a list of integers here, which bounds the model to
  arguments of the types the branches are written for; outside them it reports
  TypeError where Python does something else: \<open>data.append(v)\<close> (kinds B and Y)
  appends a \<open>v\<close> of any type as it is, and \<open>data += v\<close> (kinds K, D, L and O)
  extends \<open>data\<close> with the items of any iterable, after \<open>len(v)\<close> has been tested
  for kinds K and O. No statement below is about such arguments.
\<close>

definition assemble_field :: "char \<Rightarrow> pyval \<Rightarrow> error + int list" where
  "assemble_field kind v =
     (if kind = CHR ''B'' then bindE (as_int v) (\<lambda>b. Inr [b])
      else if kind = CHR ''W'' then
        bindE (as_int v) (\<lambda>w. Inr [drop_bit 8 w AND 0xff, w AND 0xff])
      else if kind = CHR ''Y'' then
        (case v of PNone \<Rightarrow> Inr [] | _ \<Rightarrow> bindE (as_int v) (\<lambda>b. Inr [b]))
      else if kind = CHR ''N'' then Inr [1]
      else if kind = CHR ''K'' then
        bindE (as_seq v) (\<lambda>k. if length k \<noteq> 16 then Inl AssertionError else Inr k)
      else if kind = CHR ''D'' then as_seq v
      else if kind = CHR ''S'' then Inl AssertionError
      else if kind = CHR ''L'' then as_seq v
      else if kind = CHR ''C'' then bindE (as_seq v) MakeDate
      else if kind = CHR ''O'' then as_seq v
      else if kind = CHR ''V'' then
        bindE (as_dict v) (\<lambda>d.
        bindE (dict_get d ''size'') (\<lambda>sizev.
        bindE (dict_get d ''value'') (\<lambda>valuev.
        bindE (as_int sizev) (\<lambda>size.
          if size \<le> 0 then Inr [size]
          else bindE (as_int valuev) (\<lambda>val.
               Inr ([size] @ big_endian_bytes (nat size) val))))))
      else if kind = CHR ''X'' then bindE (as_dict v) MakeSensor
      else if kind = CHR ''M'' then bindE (as_dict v) MakeMeter
      else if kind = CHR ''F'' then
        bindE (as_dict v) (\<lambda>d.
        bindE (dict_get d ''text'') (\<lambda>mv.
        bindE (bindE (dict_get d ''encoding'') as_int) (\<lambda>encoding.
        bindE (as_list mv) (\<lambda>m.
          let c = push_bit 5 encoding OR py_len m
          in Inr ([c] @ m)))))
      else if kind = CHR ''R'' then
        bindE (as_dict v) (\<lambda>d.
        bindE (dict_get d ''value'') (\<lambda>valuev.
        bindE (bindE (dict_get d ''size'') as_int) (\<lambda>size.
          if size \<le> 0 then Inr []
          else bindE (as_int valuev) (\<lambda>val.
               Inr (little_endian_bytes (nat size) val)))))
      else Inl AssertionError)"

fun AssembleCommand_loop ::
  "string list \<Rightarrow> (string \<rightharpoonup> pyval) \<Rightarrow> int list \<Rightarrow> error + int list" where
  "AssembleCommand_loop [] args data = Inr data"
| "AssembleCommand_loop (t # table) args data =
     (case py_item t 0 of
        Inl e \<Rightarrow> Inl e
      | Inr kind \<Rightarrow>
          (case dict_get args (field_name t) of
             Inl e \<Rightarrow> Inl e
           | Inr v \<Rightarrow>
               (case assemble_field kind v of
                  Inl e \<Rightarrow> Inl e
                | Inr bs \<Rightarrow> AssembleCommand_loop table args (data @ bs))))"

definition AssembleCommand ::
  "cmd_table \<Rightarrow> int \<Rightarrow> int \<Rightarrow> (string \<rightharpoonup> pyval) \<Rightarrow> error + int list" where
  "AssembleCommand tbl cmd0 cmd1 args =
     (case tbl (cmd0 * 256 + cmd1) of
        None \<Rightarrow> Inl KeyError
      | Some table \<Rightarrow> AssembleCommand_loop table args [cmd0, cmd1])"

section \<open>Arguments that survive assembling and parsing\<close>

text \<open>
  The descriptor kinds whose encoder and decoder agree, with the values they agree on.
  \<open>fixed_field_ok\<close>: kinds B (an integer), W (an integer below \<open>2^16\<close>), C (a list of
  six integers), O (a list of eight integers) and V (a dictionary with exactly the keys
  \<open>size\<close>, from 0 to 7, and \<open>value\<close>, a natural number of that many bytes).
  \<open>rest_field_ok\<close>: the kinds whose decoder consumes the rest of the frame, D and L (a
  list of integers) and R (a dictionary with exactly the keys \<open>size\<close> and \<open>value\<close>, a
  natural number of that many bytes). \<open>fields_ok table args\<close>: every descriptor of the
  table has an argument of such a kind and value, a rest kind only in the last place.
\<close>

definition fixed_field_ok :: "char \<Rightarrow> pyval \<Rightarrow> bool" where
  "fixed_field_ok kind v =
     (if kind = CHR ''B'' then (case v of PInt b \<Rightarrow> True | _ \<Rightarrow> False)
      else if kind = CHR ''W'' then (case v of PInt w \<Rightarrow> 0 \<le> w \<and> w < 65536 | _ \<Rightarrow> False)
      else if kind = CHR ''C'' then (case v of PList date \<Rightarrow> length date = 6 | _ \<Rightarrow> False)
      else if kind = CHR ''O'' then (case v of PList nonce \<Rightarrow> length nonce = 8 | _ \<Rightarrow> False)
      else if kind = CHR ''V'' then
        (case v of
           PDict d \<Rightarrow>
             (case (d ''size'', d ''value'') of
                (Some (PInt sz), Some (PInt val)) \<Rightarrow>
                  0 \<le> sz \<and> sz \<le> 7 \<and> 0 \<le> val \<and> val < 256 ^ nat sz \<and>
                  d = [''size'' \<mapsto> PInt sz, ''value'' \<mapsto> PInt val]
              | _ \<Rightarrow> False)
         | _ \<Rightarrow> False)
      else False)"

definition rest_field_ok :: "char \<Rightarrow> pyval \<Rightarrow> bool" where
  "rest_field_ok kind v =
     (if kind = CHR ''D'' \<or> kind = CHR ''L'' then (case v of PList xs \<Rightarrow> True | _ \<Rightarrow> False)
      else if kind = CHR ''R'' then
        (case v of
           PDict d \<Rightarrow>
             (case (d ''size'', d ''value'') of
                (Some (PInt sz), Some (PInt val)) \<Rightarrow>
                  0 \<le> sz \<and> 0 \<le> val \<and> val < 256 ^ nat sz \<and>
                  d = [''size'' \<mapsto> PInt sz, ''value'' \<mapsto> PInt val]
              | _ \<Rightarrow> False)
         | _ \<Rightarrow> False)
      else False)"

fun fields_ok :: "string list \<Rightarrow> (string \<rightharpoonup> pyval) \<Rightarrow> bool" where
  "fields_ok [] args = True"
| "fields_ok [t] args =
     (case (t, args (field_name t)) of
        (kind # _, Some v) \<Rightarrow> fixed_field_ok kind v \<or> rest_field_ok kind v
      | _ \<Rightarrow> False)"
| "fields_ok (t # table) args =
     (case (t, args (field_name t)) of
        (kind # _, Some v) \<Rightarrow> fixed_field_ok kind v \<and> fields_ok table args
      | _ \<Rightarrow> False)"

text \<open>
  \<open>decodes action bs v\<close>: the decoder \<open>action\<close>, started where the bytes \<open>bs\<close> begin
  in a frame, returns the index just behind them and the value \<open>v\<close>, whatever stands
  before and behind; \<open>decodes_last\<close> is the same for bytes that end the frame.
\<close>

definition decodes :: "(int list \<Rightarrow> int \<Rightarrow> error + presult) \<Rightarrow> int list \<Rightarrow> pyval \<Rightarrow> bool" where
  "decodes action bs v =
     (\<forall>pre post. action (pre @ bs @ post) (int (length pre))
        = Inr (Tup (int (length pre) + int (length bs)) v))"

definition decodes_last :: "(int list \<Rightarrow> int \<Rightarrow> error + presult) \<Rightarrow> int list \<Rightarrow> pyval \<Rightarrow> bool" where
  "decodes_last action bs v =
     (\<forall>pre. action (pre @ bs) (int (length pre))
        = Inr (Tup (int (length pre) + int (length bs)) v))"

section \<open>Concrete inputs\<close>

text \<open>
  A command table with entries of the shapes the code handles, used at the concrete
  inputs below (the table of the program itself is in \<open>zwave.py\<close>), and three
  argument dictionaries.
\<close>

definition sample_table :: cmd_table where
  "sample_table =
     [0x2001 \<mapsto> [''B{level}''],
      0x7004 \<mapsto> [''B{parameter}'', ''V{value}''],
      0x8a01 \<mapsto> [''C{date}''],
      0x7701 \<mapsto> [''N{name}''],
      0x3105 \<mapsto> [''B{type}'', ''X{value}''],
      0x9880 \<mapsto> [''O{nonce}''],
      0x5601 \<mapsto> [''W{crc}'', ''L{command}'']]"

definition config_args :: "string \<rightharpoonup> pyval" where
  "config_args =
     [''parameter'' \<mapsto> PInt 3,
      ''value'' \<mapsto> PDict [''size'' \<mapsto> PInt 2, ''value'' \<mapsto> PInt 300]]"

definition name_args :: "string \<rightharpoonup> pyval" where
  "name_args =
     [''name'' \<mapsto> PDict [''encoding'' \<mapsto> PInt 0, ''text'' \<mapsto> PList [72, 105]]]"

definition sensor_args :: "string \<rightharpoonup> pyval" where
  "sensor_args =
     [''type'' \<mapsto> PInt 1,
      ''value'' \<mapsto> PDict [''exp'' \<mapsto> PInt 1, ''scale'' \<mapsto> PInt 0, ''mantissa'' \<mapsto> PList [0, 200]]]"

section \<open>zsecurity.py: the crypter\<close>

text \<open>
  The block cipher is the external library \<open>Crypto.Cipher.AES\<close>. Its block function
  (key and 16-byte block to 16-byte block) is a parameter \<open>E\<close> of the model;
  \<open>block_cipher E\<close> is all that is assumed of it. \<open>AES.new(key)\<close> rejects a key
  whose size is not 16, 24 or 32; the cipher object is represented by its key.
  \<open>encrypt\<close> (ECB, the library's default mode) rejects data whose size is not a
  multiple of 16 and encrypts block by block.
\<close>

type_synonym block_fn = "int list \<Rightarrow> int list \<Rightarrow> int list"

definition block_cipher :: "block_fn \<Rightarrow> bool" where
  "block_cipher E =
     (\<forall>key blk. length key = 16 \<and> list_all is_byte key \<and> length blk = 16 \<and> list_all is_byte blk
        \<longrightarrow> length (E key blk) = 16 \<and> list_all is_byte (E key blk))"

definition AES_new :: "int list \<Rightarrow> error + int list" where
  "AES_new key = (if length key \<in> {16, 24, 32} then Inr key else Inl ValueError)"

function ecb_blocks :: "(int list \<Rightarrow> int list) \<Rightarrow> int list \<Rightarrow> int list" where
  "ecb_blocks f xs = (if xs = [] then [] else f (take 16 xs) @ ecb_blocks f (drop 16 xs))"
  by pat_completeness auto
termination
  by (relation "measure (\<lambda>(f, xs). length xs)") auto

declare ecb_blocks.simps [simp del]

definition AES_encrypt :: "block_fn \<Rightarrow> int list \<Rightarrow> int list \<Rightarrow> error + int list" where
  "AES_encrypt E cipher data =
     (if length data mod 16 \<noteq> 0 then Inl ValueError else Inr (ecb_blocks (E cipher) data))"

definition CRYPT_SECRET :: "int list" where
  "CRYPT_SECRET = replicate 16 0xaa"

definition AUTH_SECRET :: "int list" where
  "AUTH_SECRET = replicate 16 0x55"

text \<open>
  \<open>Crypt(key, data, iv_orig)\<close>: the loop over \<open>range(len(data))\<close>, with the running
  index \<open>i\<close> and the current \<open>iv\<close>; \<open>out[i] = data[i] ^ iv[i % 16]\<close>.
\<close>

fun Crypt_loop :: "block_fn \<Rightarrow> int list \<Rightarrow> int list \<Rightarrow> nat \<Rightarrow> int list \<Rightarrow> error + int list" where
  "Crypt_loop E cipher [] i iv = Inr []"
| "Crypt_loop E cipher (d # ds) i iv =
     (case (if i mod 16 = 0 then AES_encrypt E cipher iv else Inr iv) of
        Inl e \<Rightarrow> Inl e
      | Inr iv' \<Rightarrow>
          (case py_item iv' (int (i mod 16)) of
             Inl e \<Rightarrow> Inl e
           | Inr k \<Rightarrow>
               (case Crypt_loop E cipher ds (i + 1) iv' of
                  Inl e \<Rightarrow> Inl e
                | Inr out \<Rightarrow> Inr ((d XOR k) # out))))"

definition Crypt :: "block_fn \<Rightarrow> int list \<Rightarrow> int list \<Rightarrow> int list \<Rightarrow> error + int list" where
  "Crypt E key data iv_orig =
     (if length iv_orig \<noteq> 16 then Inl AssertionError
      else bindE (py_bytes iv_orig) (\<lambda>iv.
           bindE (py_bytes key) (\<lambda>k.
           bindE (AES_new k) (\<lambda>cipher.
           Crypt_loop E cipher data 0 iv))))"

text \<open>
  \<open>ComputeMAC\<close>. \<open>mac_xor_block\<close> is the inner loop
  \<open>for i in range(16): auth[i] = auth[i] ^ buf[x + i]\<close>; \<open>mac_round\<close> is one pass of
  the outer loop, which ends with \<open>auth = list(cipher.encrypt(bytes(auth)))\<close>;
  \<open>block_offsets n\<close> is \<open>range(0, n, 16)\<close>.
\<close>

definition mac_xor_step :: "int list \<Rightarrow> nat \<Rightarrow> error + int list \<Rightarrow> nat \<Rightarrow> error + int list" where
  "mac_xor_step buf x acc i =
     bindE acc (\<lambda>auth.
     bindE (py_item auth (int i)) (\<lambda>a.
     bindE (py_item buf (int (x + i))) (\<lambda>b.
     Inr (auth[i := a XOR b]))))"

definition mac_xor_block :: "int list \<Rightarrow> nat \<Rightarrow> int list \<Rightarrow> error + int list" where
  "mac_xor_block buf x auth = foldl (mac_xor_step buf x) (Inr auth) [0..<16]"

definition mac_round :: "block_fn \<Rightarrow> int list \<Rightarrow> int list \<Rightarrow> error + int list \<Rightarrow> nat \<Rightarrow> error + int list" where
  "mac_round E cipher buf acc x =
     bindE acc (\<lambda>auth.
     bindE (mac_xor_block buf x auth) (\<lambda>auth'.
     bindE (py_bytes auth') (\<lambda>b.
     AES_encrypt E cipher b)))"

definition block_offsets :: "nat \<Rightarrow> nat list" where
  "block_offsets n = map (\<lambda>k. 16 * k) [0..<(n + 15) div 16]"

definition ComputeMAC ::
  "block_fn \<Rightarrow> int list \<Rightarrow> int list \<Rightarrow> int list \<Rightarrow> int \<Rightarrow> int \<Rightarrow> int \<Rightarrow> error + int list" where
  "ComputeMAC E key data iv sub_command src_node dst_node =
     (if length iv \<noteq> 16 then Inl AssertionError
      else
        let padding = replicate 16 0;
            header = [sub_command, src_node, dst_node, py_len data];
            buf = header @ data @ padding
        in bindE (py_bytes key) (\<lambda>k.
           bindE (AES_new k) (\<lambda>cipher.
           bindE (py_bytes iv) (\<lambda>ivb.
           bindE (AES_encrypt E cipher ivb) (\<lambda>auth0.
           bindE (foldl (mac_round E cipher buf) (Inr auth0)
                    (block_offsets (length header + length data))) (\<lambda>auth.
           Inr (py_slice auth 0 8)))))))"

text \<open>The class \<open>Crypter\<close>: its two derived keys, and \<open>__init__\<close>, \<open>Wrap\<close>, \<open>Unwrap\<close>.\<close>

record Crypter =
  auth_key :: "int list"
  crypt_key :: "int list"

definition Crypter_init :: "block_fn \<Rightarrow> int list \<Rightarrow> error + Crypter" where
  "Crypter_init E key =
     (if length key \<noteq> 16 then Inl AssertionError
      else bindE (py_bytes key) (\<lambda>k.
           bindE (AES_new k) (\<lambda>cipher.
           bindE (py_bytes AUTH_SECRET) (\<lambda>a.
           bindE (AES_encrypt E cipher a) (\<lambda>ak.
           bindE (py_bytes CRYPT_SECRET) (\<lambda>c.
           bindE (AES_encrypt E cipher c) (\<lambda>ck.
           Inr \<lparr>auth_key = ak, crypt_key = ck\<rparr>)))))))"

definition Wrap ::
  "block_fn \<Rightarrow> Crypter \<Rightarrow> int list \<Rightarrow> int list \<Rightarrow> int list \<Rightarrow> int \<Rightarrow> int \<Rightarrow> int \<Rightarrow> error + int list" where
  "Wrap E self payload nonce random sub_command src_node dst_node =
     (if length random \<noteq> 8 then Inl AssertionError
      else if length nonce \<noteq> 8 then Inl AssertionError
      else
        let iv = random @ nonce;
            plain = 0 # payload
        in bindE (Crypt E (crypt_key self) plain iv) (\<lambda>enc.
           bindE (ComputeMAC E (auth_key self) enc iv sub_command src_node dst_node) (\<lambda>mac.
           bindE (py_item nonce 0) (\<lambda>n0.
           Inr (py_slice iv 0 8 @ enc @ [n0] @ mac)))))"

text \<open>\<open>Unwrap\<close> returns \<open>None\<close> on a nonce or MAC mismatch, else the payload.\<close>

definition Unwrap ::
  "block_fn \<Rightarrow> Crypter \<Rightarrow> int list \<Rightarrow> int list \<Rightarrow> int \<Rightarrow> int \<Rightarrow> int \<Rightarrow> error + int list option" where
  "Unwrap E self wrapped nonce sub_command src_node dst_node =
     (let enc_size = py_len wrapped - 8 - 8 - 1;
          iv = py_slice wrapped 0 8 @ nonce;
          enc = py_slice wrapped 8 (8 + enc_size);
          mac_expected = py_slice_from wrapped (- 8)
      in bindE (py_item wrapped (- 9)) (\<lambda>w9.
         bindE (py_item nonce 0) (\<lambda>n0.
         if w9 \<noteq> n0 then Inr None
         else bindE (ComputeMAC E (auth_key self) enc iv sub_command src_node dst_node) (\<lambda>mac_actual.
              if list_ex (\<lambda>(a, b). a \<noteq> b) (zip mac_actual mac_expected) then Inr None
              else bindE (Crypt E (crypt_key self) enc iv) (\<lambda>plain.
                   Inr (Some (py_slice_from plain 1)))))))"

text \<open>
  A concrete block function, used only to instantiate the cipher parameter at
  concrete inputs; it is not AES.
\<close>

definition sample_cipher :: block_fn where
  "sample_cipher key blk = map (\<lambda>(k, b). (7 * k + 5 * b + 11) mod 256) (zip key (rotate1 blk))"

definition sample_key :: "int list" where
  "sample_key = [0, 1, 2, 3, 4, 5, 6, 7, 8, 9, 10, 11, 12, 13, 14, 15]"

definition sample_nonce :: "int list" where
  "sample_nonce = [17, 34, 51, 68, 85, 102, 119, 136]"

definition sample_random :: "int list" where
  "sample_random = [170, 170, 170, 170, 170, 170, 170, 170]"

text \<open>The crypter that \<open>Crypter_init sample_cipher sample_key\<close> builds.\<close>

definition sample_crypter :: Crypter where
  "sample_crypter =
     \<lparr>auth_key = [180, 187, 194, 201, 208, 215, 222, 229, 236, 243, 250, 1, 8, 15, 22, 29],
      crypt_key = [93, 100, 107, 114, 121, 128, 135, 142, 149, 156, 163, 170, 177, 184, 191, 198]\<rparr>"

section \<open>zsecurity.py: nonces and the per-node secure queue\<close>

text \<open>The class \<open>Nonce\<close>: a value and the time after which it is expired.\<close>

record Nonce =
  nonce_value :: "int list"
  expiration :: real

definition IsExpired :: "Nonce \<Rightarrow> real \<Rightarrow> bool" where
  "IsExpired self now = (now > expiration self)"

text \<open>
  A queued command is a list \<open>[class, subcommand, argument, ...]\<close> whose items are
  integers or byte lists (\<open>cmd[2]\<close> of a key-set command is the key).
\<close>

datatype cmd_item = Num int | Seq "int list"

type_synonym message = "cmd_item list"

text \<open>
  The attributes of a \<open>SecureQueue\<close> object; an attribute that has not been assigned
  is \<open>None\<close> here, and reading it raises AttributeError. The list returned to the
  transport, \<open>[z.Security, z.Security_MessageEncap, wrapped]\<close>, is an \<open>envelope\<close>.
\<close>

record SecureQueue =
  node :: "int option"
  controller_node :: "int option"
  crypter :: "Crypter option"
  queue :: "message list option"
  nonce_outbound :: "Nonce option"
  nonce_outbound_requested :: "bool option"

datatype envelope = Envelope int int "int list"

text \<open>
  \<open>SecureQueue()\<close>. The class defines no \<open>__init__\<close>: the method that assigns
  \<open>self._queue = []\<close> is named \<open>__init\<close>, which Python does not call on
  construction, so a new object has no attribute. (That method, called by hand, raises
  before it reaches the queue: its first statement unpacks \<open>node\<close> into \<open>self, _node\<close>
  and its third evaluates the undefined name \<open>_DEFAULT_KEY\<close>.)
\<close>

definition SecureQueue_new :: SecureQueue where
  "SecureQueue_new =
     \<lparr>node = None, controller_node = None, crypter = None, queue = None,
      nonce_outbound = None, nonce_outbound_requested = None\<rparr>"

text \<open>\<open>EnqueueMessage\<close>: \<open>self._queue.append(message)\<close>.\<close>

definition EnqueueMessage :: "message \<Rightarrow> SecureQueue \<Rightarrow> (error + unit) \<times> SecureQueue" where
  "EnqueueMessage message self =
     (case queue self of
        None \<Rightarrow> (Inl AttributeError, self)
      | Some q \<Rightarrow> (Inr (), self\<lparr>queue := Some (q @ [message])\<rparr>))"

text \<open>
  \<open>SetKey\<close>: \<open>self._crypter = _Crypter(key)\<close>. The module defines the class
  \<open>Crypter\<close> and no name \<open>_Crypter\<close>, so evaluating the right-hand side raises
  NameError before anything is assigned.
\<close>

definition SetKey :: "int list \<Rightarrow> SecureQueue \<Rightarrow> (error + unit) \<times> SecureQueue" where
  "SetKey key self = (Inl NameError, self)"

text \<open>\<open>GetRandomList\<close>: \<open>return _CRYPT_SECRET[:n]\<close>.\<close>

definition GetRandomList :: "SecureQueue \<Rightarrow> int \<Rightarrow> int list" where
  "GetRandomList self n = py_slice_to CRYPT_SECRET n"

text \<open>
  \<open>ProcessReceivedNonce\<close>. The nonce is stored first; \<open>len(self._queue)\<close> raises
  AttributeError when the queue was never assigned. The test is
  \<open>if len(self._queue) != 0: return None\<close>, so a non-empty queue returns \<open>None\<close>
  with the queue untouched, and \<open>self._queue.pop(0)\<close> runs only on an empty queue,
  where it raises IndexError. The statements after the pop
  (\<open>command.AssembleCommand(cmd)\<close>, \<open>Wrap\<close>, the key-set test with \<open>SetKey\<close>, and
  the return of the envelope) are never reached; were the pop to succeed, the call
  \<open>AssembleCommand(cmd)\<close> passes one argument to a function of three and raises
  TypeError.
\<close>

definition ProcessReceivedNonce ::
  "Nonce \<Rightarrow> SecureQueue \<Rightarrow> (error + envelope option) \<times> SecureQueue" where
  "ProcessReceivedNonce nonce self =
     (let self1 = self\<lparr>nonce_outbound := Some nonce\<rparr>
      in case queue self1 of
           None \<Rightarrow> (Inl AttributeError, self1)
         | Some q \<Rightarrow>
             if length q \<noteq> 0 then (Inr None, self1)
             else (case q of
                     [] \<Rightarrow> (Inl IndexError, self1)
                   | cmd # rest \<Rightarrow> (Inl TypeError, self1\<lparr>queue := Some rest\<rparr>)))"

section \<open>Basic facts\<close>

lemma bindE_Inl [simp]: "bindE (Inl e) f = Inl e"
  by (simp add: bindE_def)

lemma bindE_Inr [simp]: "bindE (Inr x) f = f x"
  by (simp add: bindE_def)

lemma py_item_nat: "i < length xs \<Longrightarrow> py_item xs (int i) = Inr (xs ! i)"
  by (simp add: py_item_def)

lemma py_item_append_cons: "py_item (xs @ y # ys) (int (length xs)) = Inr y"
  by (simp add: py_item_def)

lemma py_item_from_end:
  "py_item (xs @ y # ys) (- int (Suc (length ys))) = Inr y"
  by (simp add: py_item_def nth_append)

lemma py_slice_nat:
  "py_slice xs (int a) (int b) = take (min (length xs) b - min (length xs) a) (drop (min (length xs) a) xs)"
  by (simp add: py_slice_def py_bound_def Let_def)

lemma py_slice_middle:
  "py_slice (xs @ ys @ zs) (int (length xs)) (int (length xs + length ys)) = ys"
  using py_slice_nat [of "xs @ ys @ zs" "length xs" "length xs + length ys"] by simp

lemma py_slice_from_nat: "py_slice_from xs (int a) = drop a xs"
  by (simp add: py_slice_from_def py_bound_def min_def)

lemma py_slice_from_end:
  "zs \<noteq> [] \<Longrightarrow> py_slice_from (xs @ zs) (- int (length zs)) = zs"
  by (simp add: py_slice_from_def py_bound_def)

lemma list_all_update:
  "list_all P xs \<Longrightarrow> P v \<Longrightarrow> list_all P (xs[i := v])"
  by (induction xs arbitrary: i) (auto split: nat.splits)

section \<open>The signed mantissa decoder\<close>

text \<open>
  C5: the specification expects the mantissa \<open>[0xFF, 0x38]\<close> to decode to \<open>-200\<close>.
  The source complements each byte with \<open>~d\<close> on an unbounded integer, so the
  function returns \<open>65592\<close> there.
\<close>

theorem GetSignedValue_ff38: "GetSignedValue [0xFF, 0x38] = Inr 65592"
  by (simp add: GetSignedValue_def py_item_def)

section \<open>Assembling and parsing: the round trip\<close>

lemma and_255: "(x::int) AND 255 = x mod 256"
  using take_bit_eq_mask [of 8 x] by (simp add: take_bit_eq_mod mask_eq_exp_minus_1)

lemma and_7: "(x::int) AND 7 = x mod 8"
  using take_bit_eq_mask [of 3 x] by (simp add: take_bit_eq_mod mask_eq_exp_minus_1)

lemma length_big_endian_bytes [simp]: "length (big_endian_bytes n v) = n"
  by (induction n) simp_all

lemma length_little_endian_bytes [simp]: "length (little_endian_bytes n v) = n"
  by (induction n arbitrary: v) simp_all

lemma GetIntBigEndian_loop_bytes:
  "GetIntBigEndian_loop x (big_endian_bytes n v) = x * 256 ^ n + v mod 256 ^ n"
proof (induction n arbitrary: x)
  case 0
  then show ?case by simp
next
  case (Suc n)
  have split: "v mod (256 ^ n * 256) = 256 ^ n * (v div 256 ^ n mod 256) + v mod 256 ^ n"
    by (rule zmod_zmult2_eq) simp
  have d: "drop_bit (8 * n) v = v div 256 ^ n"
    by (simp add: drop_bit_eq_div power_mult)
  have "GetIntBigEndian_loop x (big_endian_bytes (Suc n) v)
          = GetIntBigEndian_loop (x * 256 + v div 256 ^ n mod 256) (big_endian_bytes n v)"
    by (simp add: and_255 d push_bit_eq_mult)
  also have "\<dots> = (x * 256 + v div 256 ^ n mod 256) * 256 ^ n + v mod 256 ^ n"
    by (rule Suc.IH)
  also have "\<dots> = x * 256 ^ Suc n + v mod 256 ^ Suc n"
    using split by (simp add: algebra_simps)
  finally show ?case .
qed

lemma GetIntBigEndian_bytes:
  "0 \<le> v \<Longrightarrow> v < 256 ^ n \<Longrightarrow> GetIntBigEndian (big_endian_bytes n v) = v"
  by (simp add: GetIntBigEndian_def GetIntBigEndian_loop_bytes)

lemma GetIntLittleEndian_loop_bytes:
  "GetIntLittleEndian_loop x shift (little_endian_bytes n v) = x + push_bit shift (v mod 256 ^ n)"
proof (induction n arbitrary: x shift v)
  case 0
  then show ?case by simp
next
  case (Suc n)
  have split: "v mod (256 * 256 ^ n) = 256 * (v div 256 mod 256 ^ n) + v mod 256"
    by (rule zmod_zmult2_eq) simp
  show ?case
    using Suc.IH [of "x + push_bit shift (v AND 255)" "shift + 8" "drop_bit 8 v"] split
    by (simp add: and_255 drop_bit_eq_div push_bit_eq_mult power_add algebra_simps)
qed

lemma GetIntLittleEndian_bytes:
  "0 \<le> v \<Longrightarrow> v < 256 ^ n \<Longrightarrow> GetIntLittleEndian (little_endian_bytes n v) = v"
  by (simp add: GetIntLittleEndian_def GetIntLittleEndian_loop_bytes)

lemma py_item_mid:
  assumes "k < length bs"
  shows "py_item (pre @ bs @ post) (int (length pre) + int k) = Inr (bs ! k)"
proof -
  have "py_item (pre @ bs @ post) (int (length pre + k)) = Inr ((pre @ bs @ post) ! (length pre + k))"
    using assms by (intro py_item_nat) simp
  moreover have "(pre @ bs @ post) ! (length pre + k) = bs ! k"
    using assms by (simp add: nth_append)
  ultimately show ?thesis by simp
qed

lemma py_slice_mid:
  "py_slice (pre @ bs @ post) (int (length pre)) (int (length pre) + int (length bs)) = bs"
  using py_slice_middle [of pre bs post] by simp

lemma py_slice_mid_off:
  "py_slice (pre @ (x # bs) @ post) (int (length pre) + 1) (int (length pre) + 1 + int (length bs)) = bs"
  using py_slice_middle [of "pre @ [x]" bs post] by (simp add: add.commute add.left_commute)

lemma decode_byte: "decodes ParseByte [b] (PInt b)"
  unfolding decodes_def
proof (intro allI)
  fix pre post :: "int list"
  show "ParseByte (pre @ [b] @ post) (int (length pre)) = Inr (Tup (int (length pre) + int (length [b])) (PInt b))"
    using py_item_append_cons [of pre b post] by (simp add: ParseByte_def py_len_def)
qed

lemma decode_word:
  assumes "0 \<le> w" "w < 65536"
  shows "decodes ParseWord [drop_bit 8 w AND 0xff, w AND 0xff] (PInt w)"
  unfolding decodes_def
proof (intro allI)
  fix pre post :: "int list"
  let ?bs = "[drop_bit 8 w AND 0xff, w AND 0xff]"
  have i0: "py_item (pre @ ?bs @ post) (int (length pre)) = Inr (drop_bit 8 w AND 0xff)"
    using py_item_mid [of 0 ?bs pre post] by simp
  have i1: "py_item (pre @ ?bs @ post) (int (length pre) + 1) = Inr (w AND 0xff)"
    using py_item_mid [of 1 ?bs pre post] by simp
  have hi: "drop_bit 8 w mod 256 = w div 256"
    using assms by (simp add: drop_bit_eq_div)
  have "(w div 256) * 256 + w mod 256 = w" by simp
  then show "ParseWord (pre @ ?bs @ post) (int (length pre))
      = Inr (Tup (int (length pre) + int (length ?bs)) (PInt w))"
    using i0 i1 unfolding ParseWord_def by (simp add: py_len_def hi and_255)
qed

lemma decode_date:
  assumes "length date = 6"
  shows "\<exists>bs. MakeDate date = Inr bs \<and> decodes ParseDate bs (PList date)"
proof -
  from assms obtain y mo d h mi s where date: "date = [y, mo, d, h, mi, s]"
    by (auto simp: length_Suc_conv eval_nat_numeral)
  let ?bs = "[y div 256, y mod 256, mo, d, h, mi, s]"
  have mk: "MakeDate date = Inr ?bs"
    by (simp add: date MakeDate_def py_item_def)
  have "decodes ParseDate ?bs (PList date)"
    unfolding decodes_def
  proof (intro allI)
    fix pre post :: "int list"
    have it: "\<And>k. k < 7 \<Longrightarrow> py_item (pre @ ?bs @ post) (int (length pre) + int k) = Inr (?bs ! k)"
      by (rule py_item_mid) simp
    have i: "py_item (pre @ ?bs @ post) (int (length pre)) = Inr (y div 256)"
      "py_item (pre @ ?bs @ post) (int (length pre) + 1) = Inr (y mod 256)"
      "py_item (pre @ ?bs @ post) (int (length pre) + 2) = Inr mo"
      "py_item (pre @ ?bs @ post) (int (length pre) + 3) = Inr d"
      "py_item (pre @ ?bs @ post) (int (length pre) + 4) = Inr h"
      "py_item (pre @ ?bs @ post) (int (length pre) + 5) = Inr mi"
      "py_item (pre @ ?bs @ post) (int (length pre) + 6) = Inr s"
      using it [of 0] it [of 1] it [of 2] it [of 3] it [of 4] it [of 5] it [of 6] by simp_all
    show "ParseDate (pre @ ?bs @ post) (int (length pre))
        = Inr (Tup (int (length pre) + int (length ?bs)) (PList date))"
      unfolding ParseDate_def using i by (simp add: py_len_def date)
  qed
  with mk show ?thesis by blast
qed

lemma decode_nonce:
  assumes "length nonce = 8"
  shows "decodes ParseNonce nonce (PList nonce)"
  unfolding decodes_def
proof (intro allI)
  fix pre post :: "int list"
  show "ParseNonce (pre @ nonce @ post) (int (length pre))
      = Inr (Tup (int (length pre) + int (length nonce)) (PList nonce))"
    using py_slice_mid [of pre nonce post] assms by (simp add: ParseNonce_def py_len_def)
qed

lemma decode_value:
  assumes "0 \<le> sz" "sz \<le> 7" "0 \<le> val" "val < 256 ^ nat sz"
  shows "decodes ParseValue (sz # big_endian_bytes (nat sz) val)
           (PDict [''size'' \<mapsto> PInt sz, ''value'' \<mapsto> PInt val])"
  unfolding decodes_def
proof (intro allI)
  fix pre post :: "int list"
  let ?be = "big_endian_bytes (nat sz) val"
  have i: "py_item (pre @ (sz # ?be) @ post) (int (length pre)) = Inr sz"
    using py_item_append_cons [of pre sz "?be @ post"] by simp
  have a: "sz AND 7 = sz" using assms(1,2) by (simp add: and_7)
  have s: "py_slice (pre @ (sz # ?be) @ post) (int (length pre) + 1) (int (length pre) + 1 + sz) = ?be"
    using py_slice_mid_off [of pre sz ?be post] assms(1) by simp
  show "ParseValue (pre @ (sz # ?be) @ post) (int (length pre))
      = Inr (Tup (int (length pre) + int (length (sz # ?be)))
               (PDict [''size'' \<mapsto> PInt sz, ''value'' \<mapsto> PInt val]))"
    unfolding ParseValue_def using i s assms(1)
    by (simp add: a Let_def GetIntBigEndian_bytes [OF assms(3,4)])
qed

lemma decode_list_rest: "decodes_last ParseListRest xs (PList xs)"
  unfolding decodes_last_def
proof (intro allI)
  fix pre :: "int list"
  show "ParseListRest (pre @ xs) (int (length pre))
      = Inr (Tup (int (length pre) + int (length xs)) (PList xs))"
    using py_slice_mid [of pre xs "[]"] by (simp add: ParseListRest_def py_len_def Let_def)
qed

lemma decode_data_rest: "decodes_last ParseDataRest xs (PList xs)"
  unfolding decodes_last_def
proof (intro allI)
  fix pre :: "int list"
  show "ParseDataRest (pre @ xs) (int (length pre))
      = Inr (Tup (int (length pre) + int (length xs)) (PList xs))"
    using py_slice_mid [of pre xs "[]"] by (simp add: ParseDataRest_def py_len_def Let_def)
qed

lemma decode_int_rest:
  assumes "0 \<le> sz" "0 \<le> val" "val < 256 ^ nat sz"
  shows "decodes_last ParseRestLittleEndianInt (little_endian_bytes (nat sz) val)
           (PDict [''size'' \<mapsto> PInt sz, ''value'' \<mapsto> PInt val])"
  unfolding decodes_last_def
proof (intro allI)
  fix pre :: "int list"
  let ?le = "little_endian_bytes (nat sz) val"
  show "ParseRestLittleEndianInt (pre @ ?le) (int (length pre))
      = Inr (Tup (int (length pre) + int (length ?le))
               (PDict [''size'' \<mapsto> PInt sz, ''value'' \<mapsto> PInt val]))"
    using py_slice_mid [of pre ?le "[]"] assms(1)
    by (simp add: ParseRestLittleEndianInt_def py_len_def Let_def
        GetIntLittleEndian_bytes [OF assms(2,3)])
qed

lemma fixed_field_roundtrip:
  assumes "fixed_field_ok kind v"
  shows "\<exists>bs action. assemble_field kind v = Inr bs \<and> PARSE_ACTIONS kind = Some action \<and>
           decodes action bs v \<and> v \<noteq> PNone"
proof -
  consider
      (B) b where "kind = CHR ''B''" "v = PInt b"
    | (W) w where "kind = CHR ''W''" "v = PInt w" "0 \<le> w" "w < 65536"
    | (C) date where "kind = CHR ''C''" "v = PList date" "length date = 6"
    | (O) nonce where "kind = CHR ''O''" "v = PList nonce" "length nonce = 8"
    | (V) sz val where "kind = CHR ''V''"
        "v = PDict [''size'' \<mapsto> PInt sz, ''value'' \<mapsto> PInt val]"
        "0 \<le> sz" "sz \<le> 7" "0 \<le> val" "val < 256 ^ nat sz"
    using assms unfolding fixed_field_ok_def
    by (auto split: if_splits pyval.splits option.splits)
  then show ?thesis
  proof cases
    case B
    then show ?thesis
      using decode_byte [of b] by (simp add: assemble_field_def as_int_def PARSE_ACTIONS_def)
  next
    case W
    then show ?thesis
      using decode_word [of w] by (simp add: assemble_field_def as_int_def PARSE_ACTIONS_def)
  next
    case C
    from decode_date [OF C(3)] obtain bs where
      "MakeDate date = Inr bs" "decodes ParseDate bs (PList date)" by blast
    with C show ?thesis
      by (simp add: assemble_field_def as_seq_def PARSE_ACTIONS_def)
  next
    case O
    then show ?thesis
      using decode_nonce [of nonce] by (simp add: assemble_field_def as_seq_def PARSE_ACTIONS_def)
  next
    case V
    have enc: "assemble_field kind v = Inr (sz # big_endian_bytes (nat sz) val)"
      using V(1,2,3)
      by (cases "sz = 0") (simp_all add: assemble_field_def as_dict_def as_int_def dict_get_def)
    show ?thesis
      using enc decode_value [OF V(3-6)] V(1,2) by (simp add: PARSE_ACTIONS_def)
  qed
qed

lemma rest_field_roundtrip:
  assumes "rest_field_ok kind v"
  shows "\<exists>bs action. assemble_field kind v = Inr bs \<and> PARSE_ACTIONS kind = Some action \<and>
           decodes_last action bs v \<and> v \<noteq> PNone"
proof -
  consider
      (D) xs where "kind = CHR ''D''" "v = PList xs"
    | (L) xs where "kind = CHR ''L''" "v = PList xs"
    | (R) sz val where "kind = CHR ''R''"
        "v = PDict [''size'' \<mapsto> PInt sz, ''value'' \<mapsto> PInt val]"
        "0 \<le> sz" "0 \<le> val" "val < 256 ^ nat sz"
    using assms unfolding rest_field_ok_def
    by (auto split: if_splits pyval.splits option.splits)
  then show ?thesis
  proof cases
    case D
    then show ?thesis
      using decode_data_rest [of xs] by (simp add: assemble_field_def as_seq_def PARSE_ACTIONS_def)
  next
    case L
    then show ?thesis
      using decode_list_rest [of xs] by (simp add: assemble_field_def as_seq_def PARSE_ACTIONS_def)
  next
    case R
    have enc: "assemble_field kind v = Inr (little_endian_bytes (nat sz) val)"
      using R(1,2,3)
      by (cases "sz = 0") (simp_all add: assemble_field_def as_dict_def as_int_def dict_get_def)
    show ?thesis
      using enc decode_int_rest [OF R(3-5)] R(1,2) by (simp add: PARSE_ACTIONS_def)
  qed
qed

lemma fields_ok_Cons:
  assumes "fields_ok (t # table) args"
  shows "\<exists>kind r v. t = kind # r \<and> args (field_name t) = Some v \<and>
           ((fixed_field_ok kind v \<and> fields_ok table args) \<or> (table = [] \<and> rest_field_ok kind v))"
  using assms by (cases table; cases t) (auto split: option.splits)

lemma assemble_step:
  assumes "t = kind # r" "args (field_name t) = Some v" "assemble_field kind v = Inr bs"
  shows "AssembleCommand_loop (t # table) args data = AssembleCommand_loop table args (data @ bs)"
  using assms by (simp add: py_item_def dict_get_def)

lemma parse_step:
  assumes "t = kind # r" "PARSE_ACTIONS kind = Some action" "action m index = Inr (Tup j v)"
    and "v \<noteq> PNone"
  shows "ParseCommand_loop (t # table) m index out
           = ParseCommand_loop table m j (out(field_name t \<mapsto> v))"
  using assms by (cases v) (simp_all add: py_item_def)

lemma map_add_restrict_insert:
  assumes "args k = Some v"
  shows "out(k \<mapsto> v) ++ (args |` S) = out ++ (args |` insert k S)"
  using assms by (auto simp: map_add_def restrict_map_def fun_eq_iff split: option.splits)

lemma loops_roundtrip:
  "fields_ok table args \<Longrightarrow>
   \<exists>bs. (\<forall>data. AssembleCommand_loop table args data = Inr (data @ bs)) \<and>
        (\<forall>pre out. ParseCommand_loop table (pre @ bs) (int (length pre)) out
            = Inr (PDict (out ++ (args |` (field_name ` set table)))))"
proof (induction table)
  case Nil
  show ?case by (intro exI [of _ "[]"]) simp
next
  case (Cons t table)
  from fields_ok_Cons [OF Cons.prems] obtain kind r v where
    t: "t = kind # r" and v: "args (field_name t) = Some v" and
    alt: "(fixed_field_ok kind v \<and> fields_ok table args) \<or> (table = [] \<and> rest_field_ok kind v)"
    by blast
  from alt show ?case
  proof
    assume fx: "fixed_field_ok kind v \<and> fields_ok table args"
    from fixed_field_roundtrip [of kind v] fx obtain bs action where
      f: "assemble_field kind v = Inr bs" "PARSE_ACTIONS kind = Some action"
        "decodes action bs v" "v \<noteq> PNone" by blast
    from Cons.IH fx obtain bs' where
      a': "\<And>data. AssembleCommand_loop table args data = Inr (data @ bs')" and
      p': "\<And>pre out. ParseCommand_loop table (pre @ bs') (int (length pre)) out
            = Inr (PDict (out ++ (args |` (field_name ` set table))))"
      by blast
    have A: "AssembleCommand_loop (t # table) args data = Inr (data @ bs @ bs')" for data
      using assemble_step [where args = args, OF t v f(1)] a' [of "data @ bs"] by simp
    have P: "ParseCommand_loop (t # table) (pre @ bs @ bs') (int (length pre)) out
          = Inr (PDict (out ++ (args |` (field_name ` set (t # table)))))" for pre out
    proof -
      have act: "action (pre @ bs @ bs') (int (length pre))
                   = Inr (Tup (int (length pre) + int (length bs)) v)"
        using f(3) unfolding decodes_def by blast
      have "ParseCommand_loop (t # table) (pre @ bs @ bs') (int (length pre)) out
              = ParseCommand_loop table (pre @ bs @ bs') (int (length pre) + int (length bs))
                  (out(field_name t \<mapsto> v))"
        by (rule parse_step [OF t f(2) act f(4)])
      also have "\<dots> = Inr (PDict (out(field_name t \<mapsto> v) ++ (args |` (field_name ` set table))))"
        using p' [of "pre @ bs" "out(field_name t \<mapsto> v)"] by simp
      finally show ?thesis
        by (simp add: map_add_restrict_insert [where args = args, OF v])
    qed
    from A P show ?thesis by blast
  next
    assume rs: "table = [] \<and> rest_field_ok kind v"
    from rest_field_roundtrip [of kind v] rs obtain bs action where
      f: "assemble_field kind v = Inr bs" "PARSE_ACTIONS kind = Some action"
        "decodes_last action bs v" "v \<noteq> PNone" by blast
    have A: "AssembleCommand_loop (t # table) args data = Inr (data @ bs)" for data
      using assemble_step [where args = args, OF t v f(1), of table data] rs by simp
    have P: "ParseCommand_loop (t # table) (pre @ bs) (int (length pre)) out
          = Inr (PDict (out ++ (args |` (field_name ` set (t # table)))))" for pre out
    proof -
      have act: "action (pre @ bs) (int (length pre))
                   = Inr (Tup (int (length pre) + int (length bs)) v)"
        using f(3) unfolding decodes_last_def by blast
      have "ParseCommand_loop (t # table) (pre @ bs) (int (length pre)) out
              = ParseCommand_loop table (pre @ bs) (int (length pre) + int (length bs))
                  (out(field_name t \<mapsto> v))"
        by (rule parse_step [OF t f(2) act f(4)])
      also have "\<dots> = Inr (PDict (out(field_name t \<mapsto> v)))"
        using rs by simp
      finally show ?thesis
        using rs map_add_restrict_insert [where args = args, OF v, of out "{}"] by simp
    qed
    from A P show ?thesis by blast
  qed
qed

text \<open>
  C3, amended: for every pair \<open>(classId, cmdId)\<close> in the command table whose descriptors
  are all of kind B, W, C, O or V, or of kind D, L or R in the last place, and every
  \<open>args\<close> whose keys are exactly the descriptors' field names, each with a value that
  fits its descriptor (\<open>fields_ok\<close>), \<open>AssembleCommand\<close> returns a frame and
  \<open>ParseCommand\<close> of that frame returns a record equal to \<open>args\<close>.
\<close>

theorem AssembleCommand_ParseCommand_roundtrip:
  assumes "tbl (cmd0 * 256 + cmd1) = Some table"
    and "fields_ok table args"
    and "dom args = field_name ` set table"
  shows "\<exists>data. AssembleCommand tbl cmd0 cmd1 args = Inr data \<and>
               ParseCommand tbl data = Inr (PDict args)"
proof -
  from loops_roundtrip [OF assms(2)] obtain bs where
    a: "AssembleCommand_loop table args [cmd0, cmd1] = Inr ([cmd0, cmd1] @ bs)" and
    p: "ParseCommand_loop table ([cmd0, cmd1] @ bs) (int (length [cmd0, cmd1])) Map.empty
          = Inr (PDict (Map.empty ++ (args |` (field_name ` set table))))"
    by blast
  have whole: "args |` (field_name ` set table) = args"
    unfolding assms(3) [symmetric] by (auto simp: restrict_map_def fun_eq_iff dom_def)
  have asm: "AssembleCommand tbl cmd0 cmd1 args = Inr ([cmd0, cmd1] @ bs)"
    using assms(1) a by (simp add: AssembleCommand_def)
  have descr: "GetParameterDescriptors tbl ([cmd0, cmd1] @ bs) = Inr (Some table)"
    using assms(1) by (simp add: GetParameterDescriptors_def py_len_def py_item_def)
  have "ParseCommand tbl ([cmd0, cmd1] @ bs) = Inr (PDict args)"
    using p whole descr by (simp add: ParseCommand_def)
  with asm show ?thesis by blast
qed

lemma field_name_simps:
  "field_name ''B{parameter}'' = ''parameter''" "field_name ''V{value}'' = ''value''"
  "field_name ''N{name}'' = ''name''" "field_name ''B{type}'' = ''type''"
  "field_name ''X{value}'' = ''value''" "field_name ''C{date}'' = ''date''"
  by (simp_all add: field_name_def py_slice_def py_bound_def)

lemma config_assemble:
  "AssembleCommand sample_table 0x70 0x04 config_args = Inr [0x70, 0x04, 3, 2, 1, 44]"
  by (simp add: AssembleCommand_def sample_table_def config_args_def dict_get_def field_name_simps
      py_item_def assemble_field_def as_int_def as_dict_def numeral_2_eq_2)

theorem AssembleCommand_ParseCommand_roundtrip_witness:
  "AssembleCommand sample_table 0x70 0x04 config_args = Inr [0x70, 0x04, 3, 2, 1, 44] \<and>
   ParseCommand sample_table [0x70, 0x04, 3, 2, 1, 44] = Inr (PDict config_args)"
proof -
  have t: "sample_table (0x70 * 256 + 0x04) = Some [''B{parameter}'', ''V{value}'']"
    by (simp add: sample_table_def)
  have ok: "fields_ok [''B{parameter}'', ''V{value}''] config_args"
    by (simp add: field_name_simps config_args_def fixed_field_ok_def)
  have d: "dom config_args = field_name ` set [''B{parameter}'', ''V{value}'']"
    by (auto simp: field_name_simps config_args_def)
  from AssembleCommand_ParseCommand_roundtrip
      [where tbl = sample_table and ?cmd0.0 = "0x70" and ?cmd1.0 = "0x04", OF t ok d]
    config_assemble
  show ?thesis by auto
qed

text \<open>
  C3, as stated for every table entry, fails. For a descriptor of kind N the assembler
  emits the single byte 1 whatever the name is, and the parser returns encoding 1, an
  empty text and a key \<open>_decoded\<close>. For a descriptor of kind X the parser adds the key
  \<open>_value\<close> to the record it returns.
\<close>

theorem AssembleCommand_ParseCommand_counterexample:
  "AssembleCommand sample_table 0x77 0x01 name_args = Inr [0x77, 0x01, 1] \<and>
   ParseCommand sample_table [0x77, 0x01, 1] =
     Inr (PDict [''name'' \<mapsto> PDict [''encoding'' \<mapsto> PInt 1, ''text'' \<mapsto> PList [],
                                   ''_decoded'' \<mapsto> PStr []]]) \<and>
   ParseCommand sample_table [0x77, 0x01, 1] \<noteq> Inr (PDict name_args) \<and>
   AssembleCommand sample_table 0x31 0x05 sensor_args = Inr [0x31, 0x05, 1, 0x22, 0, 200] \<and>
   ParseCommand sample_table [0x31, 0x05, 1, 0x22, 0, 200] =
     Inr (PDict [''type'' \<mapsto> PInt 1,
                 ''value'' \<mapsto> PDict [''exp'' \<mapsto> PInt 1, ''scale'' \<mapsto> PInt 0,
                                    ''mantissa'' \<mapsto> PList [0, 200], ''_value'' \<mapsto> PFloat 20]]) \<and>
   ParseCommand sample_table [0x31, 0x05, 1, 0x22, 0, 200] \<noteq> Inr (PDict sensor_args)"
proof -
  have a1: "AssembleCommand sample_table 0x77 0x01 name_args = Inr [0x77, 0x01, 1]"
    by (simp add: AssembleCommand_def sample_table_def name_args_def dict_get_def field_name_simps
        py_item_def assemble_field_def)
  have p1: "ParseCommand sample_table [0x77, 0x01, 1] =
      Inr (PDict [''name'' \<mapsto> PDict [''encoding'' \<mapsto> PInt 1, ''text'' \<mapsto> PList [],
                                    ''_decoded'' \<mapsto> PStr []]])"
    by (simp add: ParseCommand_def GetParameterDescriptors_def sample_table_def py_len_def py_item_def
        PARSE_ACTIONS_def ParseName_def py_slice_from_def py_bound_def py_bytes_def
        ENCODING_TO_DECODER_def py_decode_def field_name_simps)
  have n1: "ParseCommand sample_table [0x77, 0x01, 1] \<noteq> Inr (PDict name_args)"
  proof
    assume "ParseCommand sample_table [0x77, 0x01, 1] = Inr (PDict name_args)"
    with p1 have "[''name'' \<mapsto> PDict [''encoding'' \<mapsto> PInt 1, ''text'' \<mapsto> PList [],
                                    ''_decoded'' \<mapsto> PStr []]] = name_args" by simp
    then have "PDict [''encoding'' \<mapsto> PInt 1, ''text'' \<mapsto> PList [], ''_decoded'' \<mapsto> PStr []]
        = PDict [''encoding'' \<mapsto> PInt 0, ''text'' \<mapsto> PList [72, 105]]"
      by (auto simp: name_args_def dest!: fun_cong [where x = "''name''"])
    then have "[''encoding'' \<mapsto> PInt 1, ''text'' \<mapsto> PList [], ''_decoded'' \<mapsto> PStr []] ''encoding''
        = [''encoding'' \<mapsto> PInt 0, ''text'' \<mapsto> PList [72, 105]] ''encoding''"
      by (simp only: pyval.inject)
    then show False by simp
  qed
  have a2: "AssembleCommand sample_table 0x31 0x05 sensor_args = Inr [0x31, 0x05, 1, 0x22, 0, 200]"
    by (simp add: AssembleCommand_def sample_table_def sensor_args_def dict_get_def field_name_simps
        py_item_def assemble_field_def as_int_def as_dict_def as_list_def MakeSensor_def py_len_def)
  have p2: "ParseCommand sample_table [0x31, 0x05, 1, 0x22, 0, 200] =
      Inr (PDict [''type'' \<mapsto> PInt 1,
                  ''value'' \<mapsto> PDict [''exp'' \<mapsto> PInt 1, ''scale'' \<mapsto> PInt 0,
                                     ''mantissa'' \<mapsto> PList [0, 200], ''_value'' \<mapsto> PFloat 20]])"
    by (simp add: ParseCommand_def GetParameterDescriptors_def sample_table_def py_len_def py_item_def
        PARSE_ACTIONS_def ParseByte_def ParseSensor_def py_slice_def py_bound_def GetSignedValue_def
        field_name_simps Fract_of_int_quotient)
  have n2: "ParseCommand sample_table [0x31, 0x05, 1, 0x22, 0, 200] \<noteq> Inr (PDict sensor_args)"
  proof
    assume "ParseCommand sample_table [0x31, 0x05, 1, 0x22, 0, 200] = Inr (PDict sensor_args)"
    with p2 have "[''type'' \<mapsto> PInt 1,
                  ''value'' \<mapsto> PDict [''exp'' \<mapsto> PInt 1, ''scale'' \<mapsto> PInt 0,
                                     ''mantissa'' \<mapsto> PList [0, 200], ''_value'' \<mapsto> PFloat 20]]
        = sensor_args" by simp
    then have "PDict [''exp'' \<mapsto> PInt 1, ''scale'' \<mapsto> PInt 0,
                      ''mantissa'' \<mapsto> PList [0, 200], ''_value'' \<mapsto> PFloat 20]
        = PDict [''exp'' \<mapsto> PInt 1, ''scale'' \<mapsto> PInt 0, ''mantissa'' \<mapsto> PList [0, 200]]"
      by (auto simp: sensor_args_def dest!: fun_cong [where x = "''value''"])
    then have "[''exp'' \<mapsto> PInt 1, ''scale'' \<mapsto> PInt 0,
                ''mantissa'' \<mapsto> PList [0, 200], ''_value'' \<mapsto> PFloat 20] ''_value''
        = [''exp'' \<mapsto> PInt 1, ''scale'' \<mapsto> PInt 0, ''mantissa'' \<mapsto> PList [0, 200]] ''_value''"
      by (simp only: pyval.inject)
    then show False by simp
  qed
  from a1 p1 n1 a2 p2 n2 show ?thesis by blast
qed

section \<open>Parsing: unknown commands and short input\<close>

text \<open>
  C2: the specification expects \<open>ParseCommand\<close> to return a failure marker, without an
  exception, for a frame of at least two bytes whose header has no table entry. The
  source looks the key up by subscript, so for every such frame the call raises KeyError.
\<close>

theorem ParseCommand_unknown_raises:
  assumes "2 \<le> length m" "tbl (m ! 0 * 256 + m ! 1) = None"
  shows "ParseCommand tbl m = Inl KeyError"
  using assms by (auto simp: ParseCommand_def GetParameterDescriptors_def py_len_def py_item_def)

theorem ParseCommand_unknown_raises_witness:
  "ParseCommand sample_table [0xFF, 0xFF, 0x01] = Inl KeyError"
  using ParseCommand_unknown_raises [of "[0xFF, 0xFF, 0x01]" sample_table]
  by (simp add: sample_table_def)

text \<open>
  C6: the specification expects every decoder to return the failure pair when too few
  bytes remain. \<open>_ParseDate\<close> and \<open>_ParseSensor\<close> return a bare index, which makes
  \<open>ParseCommand\<close> raise TypeError; \<open>_ParseStringWithLength\<close>, \<open>_ParseValue\<close>,
  \<open>_ParseBitVector\<close> and \<open>_ParseGroups\<close> read the length byte unchecked and raise
  IndexError; \<open>_ParseValue\<close> accepts four announced bytes where one remains;
  \<open>_ParseName\<close> raises AssertionError.
\<close>

theorem decoders_short_input:
  "ParseDate [0x8a, 0x01, 1, 2, 3] 2 = Inr (Bare 5) \<and>
   ParseCommand sample_table [0x8a, 0x01, 1, 2, 3] = Inl TypeError \<and>
   ParseSensor [0x31, 0x05, 1, 0x22, 0x00] 3 = Inr (Bare 3) \<and>
   ParseCommand sample_table [0x31, 0x05, 1, 0x22, 0x00] = Inl TypeError \<and>
   ParseStringWithLength [0x8a, 0x01] 2 = Inl IndexError \<and>
   ParseValue [0x70, 0x05] 2 = Inl IndexError \<and>
   ParseValue [0x70, 0x05, 4, 1] 2 = Inr (Tup 7 (PDict [''size'' \<mapsto> PInt 4, ''value'' \<mapsto> PInt 1])) \<and>
   ParseBitVector [0x72, 0x05] 2 = Inl IndexError \<and>
   ParseGroups [0x59, 0x04] 2 = Inl IndexError \<and>
   ParseName [0x77, 0x03] 2 = Inl AssertionError"
  by (simp add: ParseDate_def ParseSensor_def ParseStringWithLength_def ParseValue_def
      ParseBitVector_def ParseGroups_def ParseName_def ParseByte_def
      ParseCommand_def GetParameterDescriptors_def sample_table_def PARSE_ACTIONS_def
      py_len_def py_item_def py_slice_def py_bound_def GetIntBigEndian_def field_name_simps)

section \<open>The crypter: encryption, MAC, wrapping\<close>

lemma ecb_blocks_single: "length xs = 16 \<Longrightarrow> ecb_blocks f xs = f xs"
  by (subst ecb_blocks.simps, subst ecb_blocks.simps) auto

lemma AES_encrypt_block:
  "length blk = 16 \<Longrightarrow> AES_encrypt E cipher blk = Inr (E cipher blk)"
  by (simp add: AES_encrypt_def ecb_blocks_single)

lemma block_cipherD:
  "block_cipher E \<Longrightarrow> length key = 16 \<Longrightarrow> list_all is_byte key \<Longrightarrow> length blk = 16 \<Longrightarrow>
   list_all is_byte blk \<Longrightarrow> length (E key blk) = 16 \<and> list_all is_byte (E key blk)"
  unfolding block_cipher_def by blast

lemma is_byte_xor: "is_byte a \<Longrightarrow> is_byte b \<Longrightarrow> is_byte (a XOR b)"
  using XOR_upper [of a 8 b] by (simp add: is_byte_def)

lemma Crypt_loop_total:
  assumes "block_cipher E" "length cipher = 16" "list_all is_byte cipher"
  shows "length iv = 16 \<Longrightarrow> list_all is_byte iv \<Longrightarrow>
         \<exists>out. Crypt_loop E cipher data i iv = Inr out \<and> length out = length data \<and>
               Crypt_loop E cipher out i iv = Inr data \<and>
               (list_all is_byte data \<longrightarrow> list_all is_byte out)"
proof (induction data arbitrary: i iv)
  case Nil
  then show ?case by simp
next
  case (Cons d ds)
  define iv' where "iv' = (if i mod 16 = 0 then E cipher iv else iv)"
  have enc: "(if i mod 16 = 0 then AES_encrypt E cipher iv else Inr iv) = Inr iv'"
    using Cons.prems by (simp add: iv'_def AES_encrypt_block)
  have iv': "length iv' = 16" "list_all is_byte iv'"
    using block_cipherD[OF assms Cons.prems] Cons.prems by (auto simp: iv'_def)
  have item: "py_item iv' (int (i mod 16)) = Inr (iv' ! (i mod 16))"
    using iv' by (intro py_item_nat) simp
  have kb: "is_byte (iv' ! (i mod 16))"
    using iv' by (simp add: list_all_length)
  from Cons.IH[OF iv', of "i + 1"] obtain out where
    out: "Crypt_loop E cipher ds (i + 1) iv' = Inr out" "length out = length ds"
      "Crypt_loop E cipher out (i + 1) iv' = Inr ds"
      "list_all is_byte ds \<longrightarrow> list_all is_byte out"
    by blast
  have xb: "is_byte d \<Longrightarrow> is_byte (d XOR iv' ! (i mod 16))"
    using kb by (simp add: is_byte_xor)
  show ?case
    using enc item out xb by (simp add: bit.xor_self xor.assoc)
qed

lemma mac_xor_prefix:
  assumes "length auth = 16" "list_all is_byte auth" "x + 16 \<le> length buf" "list_all is_byte buf"
  shows "n \<le> 16 \<Longrightarrow> \<exists>a. foldl (mac_xor_step buf x) (Inr auth) [0..<n] = Inr a \<and>
           length a = 16 \<and> list_all is_byte a"
proof (induction n)
  case 0
  then show ?case using assms by simp
next
  case (Suc n)
  then obtain a where a: "foldl (mac_xor_step buf x) (Inr auth) [0..<n] = Inr a"
    "length a = 16" "list_all is_byte a" by auto
  have n: "n < 16" using Suc.prems by simp
  have i1: "py_item a (int n) = Inr (a ! n)" using a n by (simp add: py_item_nat)
  have i2: "py_item buf (int (x + n)) = Inr (buf ! (x + n))"
    using assms n by (intro py_item_nat) simp
  have b1: "is_byte (a ! n)" using a n by (simp add: list_all_length)
  have b2: "is_byte (buf ! (x + n))" using assms n by (simp add: list_all_length)
  have "mac_xor_step buf x (Inr a) n = Inr (a[n := a ! n XOR buf ! (x + n)])"
    unfolding mac_xor_step_def using i1 i2 by simp
  moreover have "list_all is_byte (a[n := a ! n XOR buf ! (x + n)])"
    using a b1 b2 by (simp add: list_all_update is_byte_xor)
  ultimately show ?case using a by simp
qed

lemma mac_xor_block_total:
  assumes "length auth = 16" "list_all is_byte auth" "x + 16 \<le> length buf" "list_all is_byte buf"
  shows "\<exists>a. mac_xor_block buf x auth = Inr a \<and> length a = 16 \<and> list_all is_byte a"
  unfolding mac_xor_block_def using mac_xor_prefix [OF assms, of 16] by simp

lemma mac_round_total:
  assumes "block_cipher E" "length cipher = 16" "list_all is_byte cipher"
    and "length auth = 16" "list_all is_byte auth" "x + 16 \<le> length buf" "list_all is_byte buf"
  shows "\<exists>a. mac_round E cipher buf (Inr auth) x = Inr a \<and> length a = 16 \<and> list_all is_byte a"
proof -
  from mac_xor_block_total [OF assms(4-7)] obtain a where
    a: "mac_xor_block buf x auth = Inr a" "length a = 16" "list_all is_byte a" by blast
  have "mac_round E cipher buf (Inr auth) x = Inr (E cipher a)"
    using a by (simp add: mac_round_def py_bytes_def AES_encrypt_block)
  then show ?thesis using block_cipherD [OF assms(1-3) a(2,3)] by simp
qed

lemma mac_rounds_total:
  assumes "block_cipher E" "length cipher = 16" "list_all is_byte cipher" "list_all is_byte buf"
  shows "length auth = 16 \<Longrightarrow> list_all is_byte auth \<Longrightarrow> list_all (\<lambda>x. x + 16 \<le> length buf) xs \<Longrightarrow>
         \<exists>a. foldl (mac_round E cipher buf) (Inr auth) xs = Inr a \<and> length a = 16 \<and> list_all is_byte a"
proof (induction xs arbitrary: auth)
  case Nil
  then show ?case by simp
next
  case (Cons x xs)
  from Cons.prems have x: "x + 16 \<le> length buf" by simp
  from mac_round_total [OF assms(1-3) Cons.prems(1,2) x assms(4)] obtain a where
    a: "mac_round E cipher buf (Inr auth) x = Inr a" "length a = 16" "list_all is_byte a" by blast
  from Cons.IH [OF a(2,3)] Cons.prems(3) a(1) show ?case by simp
qed

lemma block_offsets_bound: "list_all (\<lambda>x. x + 16 \<le> n + 16) (block_offsets n)"
  by (auto simp: block_offsets_def list_all_iff)

lemma ComputeMAC_total:
  assumes "block_cipher E" "length key = 16" "list_all is_byte key"
    and "length iv = 16" "list_all is_byte iv"
    and "list_all is_byte data" "length data \<le> 255"
    and "is_byte sub_command" "is_byte src_node" "is_byte dst_node"
  shows "\<exists>mac. ComputeMAC E key data iv sub_command src_node dst_node = Inr mac \<and> length mac = 8"
proof -
  define buf where "buf = [sub_command, src_node, dst_node, py_len data] @ data @ replicate 16 0"
  have lenb: "is_byte (py_len data)" using assms(7) by (simp add: is_byte_def py_len_def)
  have bufb: "list_all is_byte buf"
    using assms(6,8-10) lenb by (simp add: buf_def list_all_iff is_byte_def)
  have a0: "length (E key iv) = 16" "list_all is_byte (E key iv)"
    using block_cipherD [OF assms(1-5)] by simp_all
  have offs: "list_all (\<lambda>x. x + 16 \<le> length buf) (block_offsets (Suc (Suc (Suc (Suc (length data))))))"
    using block_offsets_bound [of "Suc (Suc (Suc (Suc (length data))))"] by (simp add: buf_def)
  from mac_rounds_total [OF assms(1-3) bufb a0 offs] obtain a where
    a: "foldl (mac_round E key buf) (Inr (E key iv))
         (block_offsets (Suc (Suc (Suc (Suc (length data)))))) = Inr a"
    "length a = 16" by blast
  have "ComputeMAC E key data iv sub_command src_node dst_node = Inr (py_slice a 0 8)"
    using assms(2-5) a(1)
    by (simp add: ComputeMAC_def py_bytes_def AES_new_def AES_encrypt_block buf_def Let_def)
  moreover have "length (py_slice a 0 8) = 8"
    using a(2) py_slice_nat [of a 0 8] by simp
  ultimately show ?thesis by blast
qed

lemma Crypt_total:
  assumes "block_cipher E" "length key = 16" "list_all is_byte key"
    and "length iv = 16" "list_all is_byte iv"
  shows "\<exists>out. Crypt E key data iv = Inr out \<and> length out = length data \<and>
           Crypt E key out iv = Inr data \<and> (list_all is_byte data \<longrightarrow> list_all is_byte out)"
  using Crypt_loop_total [OF assms, of data 0] assms(2-5)
  by (simp add: Crypt_def py_bytes_def AES_new_def)

lemma Crypter_init_total:
  assumes "block_cipher E" "length key = 16" "list_all is_byte key"
  shows "\<exists>c. Crypter_init E key = Inr c \<and> length (auth_key c) = 16 \<and> list_all is_byte (auth_key c)
           \<and> length (crypt_key c) = 16 \<and> list_all is_byte (crypt_key c)"
proof -
  have s: "length AUTH_SECRET = 16" "list_all is_byte AUTH_SECRET"
    "length CRYPT_SECRET = 16" "list_all is_byte CRYPT_SECRET"
    by (simp_all add: AUTH_SECRET_def CRYPT_SECRET_def is_byte_def list_all_iff)
  have "Crypter_init E key = Inr \<lparr>auth_key = E key AUTH_SECRET, crypt_key = E key CRYPT_SECRET\<rparr>"
    using assms(2,3) s by (simp add: Crypter_init_def py_bytes_def AES_new_def AES_encrypt_block)
  then show ?thesis
    using block_cipherD [OF assms s(1,2)] block_cipherD [OF assms s(3,4)] by simp
qed

lemma sample_cipher_ok: "block_cipher sample_cipher"
  by (auto simp: block_cipher_def sample_cipher_def list_all_iff is_byte_def)

lemma Wrap_shape:
  assumes E: "block_cipher E"
    and ck: "length (crypt_key c) = 16" "list_all is_byte (crypt_key c)"
    and ak: "length (auth_key c) = 16" "list_all is_byte (auth_key c)"
    and p: "list_all is_byte payload" "length payload \<le> 254"
    and n: "length nonce = 8" "list_all is_byte nonce"
    and r: "length random = 8" "list_all is_byte random"
    and h: "is_byte sub_command" "is_byte src_node" "is_byte dst_node"
  shows "\<exists>enc mac.
           Wrap E c payload nonce random sub_command src_node dst_node
             = Inr (random @ enc @ [nonce ! 0] @ mac) \<and>
           length enc = length payload + 1 \<and> length mac = 8 \<and>
           Crypt E (crypt_key c) enc (random @ nonce) = Inr (0 # payload) \<and>
           ComputeMAC E (auth_key c) enc (random @ nonce) sub_command src_node dst_node = Inr mac"
proof -
  have iv: "length (random @ nonce) = 16" "list_all is_byte (random @ nonce)"
    using n r by simp_all
  have pl: "list_all is_byte (0 # payload)" using p by (simp add: is_byte_def)
  from Crypt_total [OF E ck iv, of "0 # payload"] pl obtain enc where
    enc: "Crypt E (crypt_key c) (0 # payload) (random @ nonce) = Inr enc"
      "length enc = length payload + 1"
      "Crypt E (crypt_key c) enc (random @ nonce) = Inr (0 # payload)"
      "list_all is_byte enc"
    by auto
  have le: "length enc \<le> 255" using enc(2) p(2) by simp
  from ComputeMAC_total [OF E ak iv enc(4) le h] obtain mac where
    mac: "ComputeMAC E (auth_key c) enc (random @ nonce) sub_command src_node dst_node = Inr mac"
      "length mac = 8"
    by blast
  have n0: "py_item nonce 0 = Inr (nonce ! 0)" using n by (simp add: py_item_def)
  have sl: "py_slice (random @ nonce) 0 8 = random"
    using py_slice_nat [of "random @ nonce" 0 8] r by simp
  have "Wrap E c payload nonce random sub_command src_node dst_node
          = Inr (random @ enc @ [nonce ! 0] @ mac)"
    using n r enc(1) mac(1) n0 sl by (simp add: Wrap_def Let_def)
  then show ?thesis using enc mac by blast
qed

lemma zip_same_no_diff: "\<not> list_ex (\<lambda>(a, b). a \<noteq> b) (zip xs xs)"
  by (induction xs) simp_all

lemma Unwrap_of_wrapped:
  assumes "length random = 8" "length mac = 8" "length nonce = 8"
    and "Crypt E (crypt_key c) enc (random @ nonce) = Inr (z # payload)"
    and "ComputeMAC E (auth_key c) enc (random @ nonce) sub_command src_node dst_node = Inr mac"
  shows "Unwrap E c (random @ enc @ [nonce ! 0] @ mac) nonce sub_command src_node dst_node
           = Inr (Some payload)"
proof -
  let ?w = "random @ enc @ [nonce ! 0] @ mac"
  have len: "py_len ?w - 8 - 8 - 1 = int (length enc)"
    using assms(1,2) by (simp add: py_len_def)
  have s1: "py_slice ?w 0 8 = random"
    using py_slice_nat [of ?w 0 8] assms(1) by simp
  have s2: "py_slice ?w 8 (8 + int (length enc)) = enc"
    using py_slice_middle [of random enc "[nonce ! 0] @ mac"] assms(1) by simp
  have ne: "mac \<noteq> []" using assms(2) by auto
  have s3: "py_slice_from ?w (- 8) = mac"
    using py_slice_from_end [OF ne, of "random @ enc @ [nonce ! 0]"] assms(2) by simp
  have s4: "py_item ?w (- 9) = Inr (nonce ! 0)"
    using py_item_from_end [of "random @ enc" "nonce ! 0" mac] assms(2) by simp
  have n0: "py_item nonce 0 = Inr (nonce ! 0)" using assms(3) by (simp add: py_item_def)
  have s5: "py_slice_from (z # payload) 1 = payload"
    using py_slice_from_nat [of "z # payload" 1] by simp
  show ?thesis
    unfolding Unwrap_def Let_def len s1 s2 s3
    using s4 n0 assms(4,5) s5 by (simp add: zip_same_no_diff)
qed

lemma Crypter_init_keys:
  assumes "block_cipher E" "Crypter_init E key = Inr c"
  shows "length (auth_key c) = 16 \<and> list_all is_byte (auth_key c) \<and>
         length (crypt_key c) = 16 \<and> list_all is_byte (crypt_key c)"
proof -
  have k: "length key = 16" "list_all is_byte key"
    using assms(2) by (auto simp: Crypter_init_def py_bytes_def split: if_splits)
  from Crypter_init_total [OF assms(1) k] assms(2) show ?thesis by auto
qed

lemma sample_crypter_init: "Crypter_init sample_cipher sample_key = Inr sample_crypter"
  by code_simp

text \<open>
  C8: \<open>Crypt\<close> is an involution. For every 16-byte key, every 16-byte IV and every
  data sequence, \<open>Crypt\<close> returns a result, and \<open>Crypt\<close> of that result under the
  same key and IV returns the data. The block function may be any that maps 16-byte
  blocks to 16-byte blocks.
\<close>

theorem Crypt_involution:
  assumes "block_cipher E"
    and "length key = 16" "list_all is_byte key"
    and "length iv = 16" "list_all is_byte iv"
  shows "\<exists>enc. Crypt E key data iv = Inr enc \<and> Crypt E key enc iv = Inr data"
  using Crypt_total [OF assms, of data] by blast

theorem Crypt_involution_witness:
  "\<exists>enc. Crypt sample_cipher sample_key [32, 1, 255, 300, - 7] (sample_random @ sample_nonce) = Inr enc \<and>
         Crypt sample_cipher sample_key enc (sample_random @ sample_nonce) = Inr [32, 1, 255, 300, - 7]"
  using Crypt_involution [OF sample_cipher_ok, of sample_key "sample_random @ sample_nonce"
      "[32, 1, 255, 300, - 7]"]
  by (simp add: sample_key_def sample_random_def sample_nonce_def is_byte_def)

text \<open>
  C4: for every 16-byte key, every byte payload of length 0, 1, 15, 16, 17 or 33, every
  8-byte nonce and random seed and all header bytes, the crypter built from the key
  wraps the payload, and \<open>Unwrap\<close> of the wrapped message with the same nonce and
  header returns the payload.
\<close>

theorem Wrap_Unwrap_roundtrip:
  assumes "block_cipher E"
    and "length key = 16" "list_all is_byte key"
    and "length payload \<in> {0, 1, 15, 16, 17, 33}" "list_all is_byte payload"
    and "length nonce = 8" "list_all is_byte nonce"
    and "length random = 8" "list_all is_byte random"
    and "is_byte sub_command" "is_byte src_node" "is_byte dst_node"
  shows "\<exists>c wrapped.
           Crypter_init E key = Inr c \<and>
           Wrap E c payload nonce random sub_command src_node dst_node = Inr wrapped \<and>
           Unwrap E c wrapped nonce sub_command src_node dst_node = Inr (Some payload)"
proof -
  from Crypter_init_total [OF assms(1-3)] obtain c where
    c: "Crypter_init E key = Inr c" "length (auth_key c) = 16" "list_all is_byte (auth_key c)"
      "length (crypt_key c) = 16" "list_all is_byte (crypt_key c)"
    by blast
  have le: "length payload \<le> 254" using assms(4) by auto
  from Wrap_shape [OF assms(1) c(4,5) c(2,3) assms(5) le assms(6-12)] obtain enc mac where
    w: "Wrap E c payload nonce random sub_command src_node dst_node
          = Inr (random @ enc @ [nonce ! 0] @ mac)"
      "length mac = 8"
      "Crypt E (crypt_key c) enc (random @ nonce) = Inr (0 # payload)"
      "ComputeMAC E (auth_key c) enc (random @ nonce) sub_command src_node dst_node = Inr mac"
    by blast
  have "Unwrap E c (random @ enc @ [nonce ! 0] @ mac) nonce sub_command src_node dst_node
          = Inr (Some payload)"
    by (rule Unwrap_of_wrapped [OF assms(8) w(2) assms(6) w(3,4)])
  with c(1) w(1) show ?thesis by blast
qed

theorem Wrap_Unwrap_roundtrip_witness:
  "\<exists>c wrapped.
     Crypter_init sample_cipher sample_key = Inr c \<and>
     Wrap sample_cipher c [152, 6, 0, 1, 2, 3, 4, 5, 6, 7, 8, 9, 10, 11, 12, 13, 14]
       sample_nonce sample_random 129 1 5 = Inr wrapped \<and>
     Unwrap sample_cipher c wrapped sample_nonce 129 1 5
       = Inr (Some [152, 6, 0, 1, 2, 3, 4, 5, 6, 7, 8, 9, 10, 11, 12, 13, 14])"
  using Wrap_Unwrap_roundtrip [OF sample_cipher_ok, of sample_key
      "[152, 6, 0, 1, 2, 3, 4, 5, 6, 7, 8, 9, 10, 11, 12, 13, 14]" sample_nonce sample_random 129 1 5]
  by (simp add: sample_key_def sample_random_def sample_nonce_def is_byte_def)

lemma xor_not_byte:
  assumes "is_byte a" "256 \<le> l"
  shows "\<not> is_byte (a XOR l)"
proof
  assume r: "is_byte (a XOR l)"
  have "(a XOR l) XOR a = l" by (simp add: xor.commute xor.left_commute)
  moreover have "is_byte ((a XOR l) XOR a)" using r assms(1) by (rule is_byte_xor)
  ultimately show False using assms(2) by (simp add: is_byte_def)
qed

lemma mac_xor_prefix_nth:
  assumes "length auth = 16" "x + 16 \<le> length buf"
  shows "n \<le> 16 \<Longrightarrow> \<exists>a. foldl (mac_xor_step buf x) (Inr auth) [0..<n] = Inr a \<and>
           length a = 16 \<and> (\<forall>i<16. a ! i = (if i < n then auth ! i XOR buf ! (x + i) else auth ! i))"
proof (induction n)
  case 0
  then show ?case using assms by simp
next
  case (Suc n)
  then obtain a where a: "foldl (mac_xor_step buf x) (Inr auth) [0..<n] = Inr a"
    "length a = 16" "\<forall>i<16. a ! i = (if i < n then auth ! i XOR buf ! (x + i) else auth ! i)"
    by auto
  have n: "n < 16" using Suc.prems by simp
  have i1: "py_item a (int n) = Inr (a ! n)" using a n by (simp add: py_item_nat)
  have i2: "py_item buf (int (x + n)) = Inr (buf ! (x + n))"
    using assms n by (intro py_item_nat) simp
  have st: "mac_xor_step buf x (Inr a) n = Inr (a[n := a ! n XOR buf ! (x + n)])"
    unfolding mac_xor_step_def using i1 i2 by simp
  have an: "a ! n = auth ! n" using a(3) n by simp
  have "\<forall>i<16. (a[n := a ! n XOR buf ! (x + n)]) ! i
          = (if i < Suc n then auth ! i XOR buf ! (x + i) else auth ! i)"
    using a(2,3) an by (auto simp: nth_list_update less_Suc_eq)
  then show ?case using a(1,2) st by simp
qed

lemma mac_rounds_error: "foldl (mac_round E cipher buf) (Inl e) xs = Inl e"
  by (induction xs) (simp_all add: mac_round_def)

lemma block_offsets_Cons: "0 < n \<Longrightarrow> \<exists>xs. block_offsets n = 0 # xs"
proof -
  assume "0 < n"
  then have "0 < (n + 15) div 16" by simp
  then obtain k where "(n + 15) div 16 = Suc k" by (cases "(n + 15) div 16") simp_all
  then show ?thesis by (simp add: block_offsets_def upt_rec)
qed

lemma ComputeMAC_long_data:
  assumes "block_cipher E" "length key = 16" "list_all is_byte key"
    and "length iv = 16" "list_all is_byte iv"
    and "256 \<le> length data"
  shows "ComputeMAC E key data iv sub_command src_node dst_node = Inl ValueError"
proof -
  define buf where "buf = [sub_command, src_node, dst_node, py_len data] @ data @ replicate 16 0"
  have a0: "length (E key iv) = 16" "list_all is_byte (E key iv)"
    using block_cipherD [OF assms(1-5)] by simp_all
  have lb: "0 + 16 \<le> length buf" by (simp add: buf_def)
  from mac_xor_prefix_nth [OF a0(1) lb, of 16] obtain a where
    a: "mac_xor_block buf 0 (E key iv) = Inr a"
       "\<forall>i<16. a ! i = E key iv ! i XOR buf ! (0 + i)" "length a = 16"
    unfolding mac_xor_block_def by auto
  have "a ! 3 = E key iv ! 3 XOR py_len data" using a(2) by (simp add: buf_def)
  moreover have "is_byte (E key iv ! 3)" using a0 by (simp add: list_all_length)
  moreover have "256 \<le> py_len data" using assms(6) by (simp add: py_len_def)
  ultimately have "\<not> is_byte (a ! 3)" by (simp add: xor_not_byte)
  then have "\<not> list_all is_byte a"
    using a(3) by (auto simp: list_all_length intro!: exI [of _ 3])
  then have r0: "mac_round E key buf (Inr (E key iv)) 0 = Inl ValueError"
    by (simp add: mac_round_def a(1) py_bytes_def)
  obtain xs where xs: "block_offsets (Suc (Suc (Suc (Suc (length data))))) = 0 # xs"
    using block_offsets_Cons [of "Suc (Suc (Suc (Suc (length data))))"] by auto
  have "foldl (mac_round E key buf) (Inr (E key iv))
          (block_offsets (Suc (Suc (Suc (Suc (length data)))))) = Inl ValueError"
    by (simp add: xs r0 mac_rounds_error)
  then show ?thesis
    using assms(2-5)
    by (simp add: ComputeMAC_def py_bytes_def AES_new_def AES_encrypt_block buf_def Let_def)
qed

lemma Wrap_long_payload:
  assumes "block_cipher E" "Crypter_init E key = Inr c"
    and "255 \<le> length payload"
    and "length nonce = 8" "list_all is_byte nonce"
    and "length random = 8" "list_all is_byte random"
  shows "Wrap E c payload nonce random sub_command src_node dst_node = Inl ValueError"
proof -
  from Crypter_init_keys [OF assms(1,2)] have
    k: "length (auth_key c) = 16" "list_all is_byte (auth_key c)"
       "length (crypt_key c) = 16" "list_all is_byte (crypt_key c)"
    by simp_all
  have iv: "length (random @ nonce) = 16" "list_all is_byte (random @ nonce)"
    using assms(4-7) by simp_all
  from Crypt_total [OF assms(1) k(3,4) iv, of "0 # payload"] obtain enc where
    enc: "Crypt E (crypt_key c) (0 # payload) (random @ nonce) = Inr enc"
      "length enc = length payload + 1"
    by auto
  have "256 \<le> length enc" using enc(2) assms(3) by simp
  from ComputeMAC_long_data [OF assms(1) k(1,2) iv this]
  show ?thesis using assms(4,6) enc(1) by (simp add: Wrap_def Let_def)
qed

text \<open>
  C9, as stated for every payload, fails: the MAC header holds \<open>len(enc)\<close>, the
  payload's length plus one, in a byte position. For a payload of 255 bytes this is 256,
  the first \<open>bytes(auth)\<close> of \<open>ComputeMAC\<close> raises ValueError, and \<open>Wrap\<close> returns
  nothing.
\<close>

theorem Wrap_255_raises:
  "Wrap sample_cipher sample_crypter (replicate 255 0) sample_nonce sample_random 129 1 5
     = Inl ValueError"
  using Wrap_long_payload [OF sample_cipher_ok sample_crypter_init,
      of "replicate 255 0" sample_nonce sample_random 129 1 5]
  by (simp add: sample_nonce_def sample_random_def is_byte_def)

text \<open>
  C9, amended: for every byte payload of at most 254 bytes, every 8-byte nonce and random
  seed and all header bytes, \<open>Wrap\<close> of a constructed crypter returns a message of
  length \<open>len(payload) + 18\<close>: the 8 bytes of the random seed, the ciphertext of the
  payload prefixed by one zero byte (\<open>len(payload) + 1\<close> bytes), the first nonce
  byte, and the 8 bytes of the MAC of that ciphertext.
\<close>

theorem Wrap_length:
  assumes "block_cipher E" "Crypter_init E key = Inr c"
    and "list_all is_byte payload" "length payload \<le> 254"
    and "length nonce = 8" "list_all is_byte nonce"
    and "length random = 8" "list_all is_byte random"
    and "is_byte sub_command" "is_byte src_node" "is_byte dst_node"
  shows "\<exists>wrapped enc mac.
           Wrap E c payload nonce random sub_command src_node dst_node = Inr wrapped \<and>
           length wrapped = length payload + 18 \<and>
           wrapped = random @ enc @ [nonce ! 0] @ mac \<and>
           length random = 8 \<and> length enc = length payload + 1 \<and> length mac = 8 \<and>
           Crypt E (crypt_key c) (0 # payload) (random @ nonce) = Inr enc \<and>
           ComputeMAC E (auth_key c) enc (random @ nonce) sub_command src_node dst_node = Inr mac"
proof -
  from Crypter_init_keys [OF assms(1,2)] have
    k: "length (auth_key c) = 16" "list_all is_byte (auth_key c)"
       "length (crypt_key c) = 16" "list_all is_byte (crypt_key c)"
    by simp_all
  from Wrap_shape [OF assms(1) k(3,4) k(1,2) assms(3-11)] obtain enc mac where
    w: "Wrap E c payload nonce random sub_command src_node dst_node
          = Inr (random @ enc @ [nonce ! 0] @ mac)"
      "length enc = length payload + 1" "length mac = 8"
      "Crypt E (crypt_key c) enc (random @ nonce) = Inr (0 # payload)"
      "ComputeMAC E (auth_key c) enc (random @ nonce) sub_command src_node dst_node = Inr mac"
    by blast
  have iv: "length (random @ nonce) = 16" "list_all is_byte (random @ nonce)"
    using assms(5-8) by simp_all
  from Crypt_total [OF assms(1) k(3,4) iv, of enc] w(4)
  have again: "Crypt E (crypt_key c) (0 # payload) (random @ nonce) = Inr enc" by auto
  have "length (random @ enc @ [nonce ! 0] @ mac) = length payload + 18"
    using assms(7) w(2,3) by simp
  with w again assms(7) show ?thesis by blast
qed

theorem Wrap_length_witness:
  "\<exists>wrapped enc mac.
     Wrap sample_cipher sample_crypter [32, 1, 255] sample_nonce sample_random 129 1 5 = Inr wrapped \<and>
     length wrapped = length [32, 1, 255 :: int] + 18 \<and>
     wrapped = sample_random @ enc @ [sample_nonce ! 0] @ mac \<and>
     length sample_random = 8 \<and> length enc = length [32, 1, 255 :: int] + 1 \<and> length mac = 8 \<and>
     Crypt sample_cipher (crypt_key sample_crypter) (0 # [32, 1, 255]) (sample_random @ sample_nonce) = Inr enc \<and>
     ComputeMAC sample_cipher (auth_key sample_crypter) enc (sample_random @ sample_nonce) 129 1 5 = Inr mac"
  using Wrap_length [OF sample_cipher_ok sample_crypter_init, of "[32, 1, 255]" sample_nonce sample_random 129 1 5]
  by (simp add: sample_random_def sample_nonce_def is_byte_def)

section \<open>The secure queue\<close>

text \<open>
  C10: the specification expects \<open>EnqueueMessage\<close> to append the message at the tail of
  the queue and to change nothing else, for every session. On the object that
  \<open>SecureQueue()\<close> constructs, and on any object whose queue was never assigned, the
  call raises AttributeError and appends nothing. On an object that holds a queue it
  appends the message at the tail and leaves every other attribute as it was.
\<close>

theorem EnqueueMessage_unassigned_queue:
  "EnqueueMessage message SecureQueue_new = (Inl AttributeError, SecureQueue_new) \<and>
   EnqueueMessage message (s\<lparr>queue := None\<rparr>) = (Inl AttributeError, s\<lparr>queue := None\<rparr>) \<and>
   EnqueueMessage message (s\<lparr>queue := Some q\<rparr>) = (Inr (), s\<lparr>queue := Some (q @ [message])\<rparr>)"
  by (simp add: EnqueueMessage_def SecureQueue_new_def)

text \<open>
  C1: the specification expects no output on an empty queue, and otherwise the head of
  the queue removed, wrapped and returned in an envelope. The source tests the queue
  the other way round: on an empty queue the call raises IndexError, and on a
  non-empty queue it returns \<open>None\<close> and leaves every queued command in place.
\<close>

theorem ProcessReceivedNonce_inverted:
  "ProcessReceivedNonce nonce (s\<lparr>queue := Some []\<rparr>)
     = (Inl IndexError, s\<lparr>queue := Some [], nonce_outbound := Some nonce\<rparr>) \<and>
   ProcessReceivedNonce nonce (s\<lparr>queue := Some (cmd # rest)\<rparr>)
     = (Inr None, s\<lparr>queue := Some (cmd # rest), nonce_outbound := Some nonce\<rparr>)"
  by (simp add: ProcessReceivedNonce_def)

text \<open>
  C7: the specification expects a popped key-set command to be wrapped under the old key
  and the session to hold the new key afterwards. In the source no call of
  \<open>ProcessReceivedNonce\<close> returns an envelope or changes the crypter, whatever is
  queued, and \<open>SetKey\<close> itself raises NameError and leaves the crypter as it was.
\<close>

theorem ProcessReceivedNonce_never_rekeys:
  "fst (ProcessReceivedNonce nonce s) \<noteq> Inr (Some env) \<and>
   crypter (snd (ProcessReceivedNonce nonce s)) = crypter s \<and>
   SetKey key s = (Inl NameError, s)"
proof (cases "queue s")
  case None
  then show ?thesis by (simp add: ProcessReceivedNonce_def SetKey_def)
next
  case (Some q)
  then show ?thesis by (cases q) (simp_all add: ProcessReceivedNonce_def SetKey_def)
qed

end
